theory Spec2Isabelle
  imports Complex_Main
begin

section \<open>JavaScript primitives used by the engine\<close>

text \<open>
  A JavaScript \<open>number\<close> is modelled as the \<open>real\<close> that it denotes. The formulas of the
  source are first given with exact arithmetic; the functions that the lightness search
  calls are also given with the rounding of each operation as a parameter. The value
  NaN, where the source can produce it (\<open>parseInt\<close> on text with no digit), is \<open>None\<close> of
  an option type. A string is a list of characters with the codes 0 to 255. The case
  mappings \<open>toLowerCase\<close> and \<open>toUpperCase\<close> are given on ASCII text, where they map one
  letter to one letter; the source applies them to hexadecimal digits and to colour
  names, and the statements about names are about names written in ASCII.
\<close>

text \<open>\<open>Math.round\<close>: the nearest integer, a tie going up.\<close>

definition Math_round :: "real \<Rightarrow> int" where
  "Math_round x = \<lfloor>x + 1 / 2\<rfloor>"

text \<open>\<open>Number.prototype.toString(16)\<close> and \<open>toString(10)\<close> on a non-negative integer.\<close>

definition hexDigit :: "nat \<Rightarrow> char" where
  "hexDigit d = ''0123456789abcdef'' ! d"

fun toString16 :: "nat \<Rightarrow> string" where
  "toString16 n =
     (if n < 16 then [hexDigit n] else toString16 (n div 16) @ [hexDigit (n mod 16)])"

declare toString16.simps [simp del]

fun toString10 :: "nat \<Rightarrow> string" where
  "toString10 n =
     (if n < 10 then [hexDigit n] else toString10 (n div 10) @ [hexDigit (n mod 10)])"

declare toString10.simps [simp del]

text \<open>\<open>String.prototype.padStart(n, c)\<close> with a one-character filler.\<close>

definition padStart :: "nat \<Rightarrow> char \<Rightarrow> string \<Rightarrow> string" where
  "padStart n c str = replicate (n - length str) c @ str"

text \<open>Character classes: \<open>[0-9]\<close>, \<open>[a-z]\<close>, \<open>[A-Z]\<close>, and the line terminators that
  the regular expression \<open>.\<close> does not match.\<close>

definition isDigit :: "char \<Rightarrow> bool" where
  "isDigit c = (48 \<le> (of_char c :: nat) \<and> (of_char c :: nat) \<le> 57)"

definition isLower :: "char \<Rightarrow> bool" where
  "isLower c = (97 \<le> (of_char c :: nat) \<and> (of_char c :: nat) \<le> 122)"

definition isUpper :: "char \<Rightarrow> bool" where
  "isUpper c = (65 \<le> (of_char c :: nat) \<and> (of_char c :: nat) \<le> 90)"

definition isLineTerminator :: "char \<Rightarrow> bool" where
  "isLineTerminator c = ((of_char c :: nat) = 10 \<or> (of_char c :: nat) = 13)"

definition toLowerChar :: "char \<Rightarrow> char" where
  "toLowerChar c =
     (if isUpper c then ''abcdefghijklmnopqrstuvwxyz'' ! ((of_char c :: nat) - 65) else c)"

definition toUpperChar :: "char \<Rightarrow> char" where
  "toUpperChar c =
     (if isLower c then ''ABCDEFGHIJKLMNOPQRSTUVWXYZ'' ! ((of_char c :: nat) - 97) else c)"

definition toLowerCase :: "string \<Rightarrow> string" where
  "toLowerCase str = map toLowerChar str"

definition toUpperCase :: "string \<Rightarrow> string" where
  "toUpperCase str = map toUpperChar str"

text \<open>The class \<open>[a-f\d]\<close> under the flag \<open>i\<close>, equally \<open>[A-Fa-f0-9]\<close>.\<close>

definition isHexDigit :: "char \<Rightarrow> bool" where
  "isHexDigit c =
     (isDigit c \<or> (97 \<le> (of_char c :: nat) \<and> (of_char c :: nat) \<le> 102)
                \<or> (65 \<le> (of_char c :: nat) \<and> (of_char c :: nat) \<le> 70))"

definition hexDigitVal :: "char \<Rightarrow> nat" where
  "hexDigitVal c =
     (if isDigit c then of_char c - 48
      else if isLower c then of_char c - 87
      else of_char c - 55)"

text \<open>
  \<open>parseInt(str, 16)\<close>: leading white space is skipped (among the codes 0 to 255, the
  codes 9 to 13, 32 and 160), then an optional sign, then an optional \<open>0x\<close> or \<open>0X\<close>,
  then the longest run of hexadecimal digits; no digit gives NaN.
\<close>

definition isWhiteSpace :: "char \<Rightarrow> bool" where
  "isWhiteSpace c = ((of_char c :: nat) \<in> {9, 10, 11, 12, 13, 32, 160})"

definition parseInt16 :: "string \<Rightarrow> int option" where
  "parseInt16 str =
     (let s1 = dropWhile isWhiteSpace str;
          neg = (case s1 of [] \<Rightarrow> False | c # _ \<Rightarrow> c = CHR ''-'');
          s2 = (case s1 of [] \<Rightarrow> []
                | c # t \<Rightarrow> if c = CHR ''-'' \<or> c = CHR ''+'' then t else s1);
          s3 = (case s2 of
                  c # d # t \<Rightarrow> if c = CHR ''0'' \<and> (d = CHR ''x'' \<or> d = CHR ''X'') then t else s2
                | _ \<Rightarrow> s2);
          ds = takeWhile isHexDigit s3;
          v = int (foldl (\<lambda>a c. 16 * a + hexDigitVal c) 0 ds)
      in if ds = [] then None else Some (if neg then - v else v))"

text \<open>
  \<open>Number.prototype.toFixed(f)\<close> for a magnitude below \<open>10^21\<close>: with \<open>n\<close> the integer
  nearest to \<open>|x| * 10^f\<close> (the larger one on a tie), the digits of \<open>n\<close>, padded with
  zeros to \<open>f + 1\<close> digits, with a point before the last \<open>f\<close> of them, and a minus sign
  when \<open>x < 0\<close>.
\<close>

definition toFixed_n :: "nat \<Rightarrow> real \<Rightarrow> nat" where
  "toFixed_n f x = nat \<lfloor>\<bar>x\<bar> * 10 ^ f + 1 / 2\<rfloor>"

definition toFixed :: "nat \<Rightarrow> real \<Rightarrow> string" where
  "toFixed f x =
     (let m = padStart (f + 1) (CHR ''0'') (toString10 (toFixed_n f x));
          k = length m
      in (if x < 0 then ''-'' else '''') @
         (if f = 0 then m else take (k - f) m @ ''.'' @ drop (k - f) m))"

section \<open>contrast.ts\<close>

record RGB =
  r :: real
  g :: real
  b :: real

record HSL =
  h :: real
  s :: real
  l :: real

record ContrastResult =
  ratio :: real
  ratioString :: string
  normalTextAA :: bool
  normalTextAAA :: bool
  largeTextAA :: bool
  largeTextAAA :: bool
  uiComponents :: bool

text \<open>The table \<open>WCAG_THRESHOLDS\<close>, one constant per entry.\<close>

definition WCAG_normalTextAAA :: real where "WCAG_normalTextAAA = 7"
definition WCAG_normalTextAA :: real where "WCAG_normalTextAA = 4.5"
definition WCAG_largeTextAAA :: real where "WCAG_largeTextAAA = 4.5"
definition WCAG_largeTextAA :: real where "WCAG_largeTextAA = 3"
definition WCAG_uiComponents :: real where "WCAG_uiComponents = 3"

text \<open>
  \<open>hexToRgb\<close>: one leading \<open>#\<close> is removed, a text of three characters has each one
  doubled, and the text must then be six hexadecimal digits. The three \<open>parseInt\<close> calls
  are on pairs of digits, so none of them gives NaN; the model keeps the calls and maps a
  NaN to \<open>None\<close>.
\<close>

definition hexToRgb :: "string \<Rightarrow> RGB option" where
  "hexToRgb hex =
     (let sanitized = (case hex of [] \<Rightarrow> [] | c # t \<Rightarrow> if c = CHR ''#'' then t else hex);
          fullHex = (if length sanitized = 3 then concat (map (\<lambda>c. [c, c]) sanitized)
                     else sanitized)
      in if length fullHex \<noteq> 6 then None
         else if \<not> list_all isHexDigit fullHex then None
         else (case (parseInt16 (take 2 fullHex),
                     parseInt16 (take 2 (drop 2 fullHex)),
                     parseInt16 (take 2 (drop 4 fullHex))) of
                 (Some r', Some g', Some b') \<Rightarrow>
                    Some \<lparr>r = real_of_int r', g = real_of_int g', b = real_of_int b'\<rparr>
               | _ \<Rightarrow> None))"

definition toHex :: "real \<Rightarrow> string" where
  "toHex n =
     (let clamped = max 0 (min 255 (Math_round n))
      in padStart 2 (CHR ''0'') (toString16 (nat clamped)))"

definition rgbToHex :: "RGB \<Rightarrow> string" where
  "rgbToHex rgb = ''#'' @ toHex (r rgb) @ toHex (g rgb) @ toHex (b rgb)"

definition rgbToHsl :: "RGB \<Rightarrow> HSL" where
  "rgbToHsl rgb =
     (let r' = r rgb / 255;
          g' = g rgb / 255;
          b' = b rgb / 255;
          mx = max (max r' g') b';
          mn = min (min r' g') b';
          l' = (mx + mn) / 2;
          d = mx - mn;
          s' = (if mx \<noteq> mn
                then (if l' > 0.5 then d / (2 - mx - mn) else d / (mx + mn))
                else 0);
          h' = (if mx \<noteq> mn
                then (if mx = r' then ((g' - b') / d + (if g' < b' then 6 else 0)) / 6
                      else if mx = g' then ((b' - r') / d + 2) / 6
                      else ((r' - g') / d + 4) / 6)
                else 0)
      in \<lparr>h = h' * 360, s = s' * 100, l = l' * 100\<rparr>)"

definition hue2rgb :: "real \<Rightarrow> real \<Rightarrow> real \<Rightarrow> real" where
  "hue2rgb p q t0 =
     (let t1 = (if t0 < 0 then t0 + 1 else t0);
          t = (if t1 > 1 then t1 - 1 else t1)
      in if t < 1 / 6 then p + (q - p) * 6 * t
         else if t < 1 / 2 then q
         else if t < 2 / 3 then p + (q - p) * (2 / 3 - t) * 6
         else p)"

definition hslToRgb :: "HSL \<Rightarrow> RGB" where
  "hslToRgb hsl =
     (let h' = h hsl / 360;
          s' = s hsl / 100;
          l' = l hsl / 100
      in if s' = 0
         then \<lparr>r = real_of_int (Math_round (l' * 255)),
               g = real_of_int (Math_round (l' * 255)),
               b = real_of_int (Math_round (l' * 255))\<rparr>
         else (let q = (if l' < 0.5 then l' * (1 + s') else l' + s' - l' * s');
                   p = 2 * l' - q
               in \<lparr>r = real_of_int (Math_round (hue2rgb p q (h' + 1 / 3) * 255)),
                   g = real_of_int (Math_round (hue2rgb p q h' * 255)),
                   b = real_of_int (Math_round (hue2rgb p q (h' - 1 / 3) * 255))\<rparr>))"

definition channelLuminance :: "real \<Rightarrow> real" where
  "channelLuminance c =
     (let s' = c / 255
      in if s' \<le> 0.03928 then s' / 12.92 else ((s' + 0.055) / 1.055) powr 2.4)"

definition getRelativeLuminance :: "RGB \<Rightarrow> real" where
  "getRelativeLuminance rgb =
     0.2126 * channelLuminance (r rgb) + 0.7152 * channelLuminance (g rgb)
       + 0.0722 * channelLuminance (b rgb)"

definition getContrastRatio :: "RGB \<Rightarrow> RGB \<Rightarrow> real" where
  "getContrastRatio color1 color2 =
     (let l1 = getRelativeLuminance color1;
          l2 = getRelativeLuminance color2;
          lighter = max l1 l2;
          darker = min l1 l2
      in (lighter + 0.05) / (darker + 0.05))"

definition formatContrastRatio :: "real \<Rightarrow> string" where
  "formatContrastRatio x = toFixed 2 x @ '':1''"

definition checkWCAGCompliance :: "real \<Rightarrow> ContrastResult" where
  "checkWCAGCompliance x =
     \<lparr>ratio = x,
      ratioString = formatContrastRatio x,
      normalTextAA = (x \<ge> WCAG_normalTextAA),
      normalTextAAA = (x \<ge> WCAG_normalTextAAA),
      largeTextAA = (x \<ge> WCAG_largeTextAA),
      largeTextAAA = (x \<ge> WCAG_largeTextAAA),
      uiComponents = (x \<ge> WCAG_uiComponents)\<rparr>"

text \<open>\<open>isValidHex\<close>: the pattern \<open>^#?([A-Fa-f0-9]{6}|[A-Fa-f0-9]{3})$\<close>.\<close>

definition isValidHex :: "string \<Rightarrow> bool" where
  "isValidHex hex =
     (let body = (case hex of [] \<Rightarrow> [] | c # t \<Rightarrow> if c = CHR ''#'' then t else hex)
      in (length body = 6 \<or> length body = 3) \<and> list_all isHexDigit body)"













section \<open>color-blindness.ts\<close>

datatype CVDType = protanopia | deuteranopia | tritanopia | achromatopsia | none

text \<open>The table \<open>CVD_MATRICES\<close> has an entry for three of the five types.\<close>

fun CVD_MATRICES :: "CVDType \<Rightarrow> real list list option" where
  "CVD_MATRICES protanopia =
     Some [[0.567, 0.433, 0.000], [0.558, 0.442, 0.000], [0.000, 0.242, 0.758]]"
| "CVD_MATRICES deuteranopia =
     Some [[0.625, 0.375, 0.000], [0.700, 0.300, 0.000], [0.000, 0.300, 0.700]]"
| "CVD_MATRICES tritanopia =
     Some [[0.950, 0.050, 0.000], [0.000, 0.433, 0.567], [0.000, 0.475, 0.525]]"
| "CVD_MATRICES achromatopsia = None"
| "CVD_MATRICES none = None"

definition GRAYSCALE_WEIGHTS :: "real list" where
  "GRAYSCALE_WEIGHTS = [0.2126, 0.7152, 0.0722]"

definition srgbToLinear :: "real \<Rightarrow> real" where
  "srgbToLinear v0 =
     (let v = v0 / 255
      in if v \<le> 0.04045 then v / 12.92 else ((v + 0.055) / 1.055) powr 2.4)"

definition linearToSrgb :: "real \<Rightarrow> int" where
  "linearToSrgb v0 =
     (let v = (if v0 \<le> 0.0031308 then v0 * 12.92 else 1.055 * v0 powr (1 / 2.4) - 0.055)
      in Math_round (max 0 (min 255 (v * 255))))"

definition applyMatrix :: "real \<times> real \<times> real \<Rightarrow> real list list \<Rightarrow> real \<times> real \<times> real" where
  "applyMatrix rgb m =
     (case rgb of (x0, x1, x2) \<Rightarrow>
        (x0 * m ! 0 ! 0 + x1 * m ! 0 ! 1 + x2 * m ! 0 ! 2,
         x0 * m ! 1 ! 0 + x1 * m ! 1 ! 1 + x2 * m ! 1 ! 2,
         x0 * m ! 2 ! 0 + x1 * m ! 2 ! 1 + x2 * m ! 2 ! 2))"

text \<open>
  \<open>simulateCVD\<close>. \<open>hex.replace('#', '')\<close> removes the first \<open>#\<close> wherever it stands. When
  one of the three \<open>parseInt\<close> calls gives NaN, every simulated channel is NaN (a product
  or a sum with NaN is NaN, and so are \<open>Math.max\<close>, \<open>Math.min\<close> and \<open>Math.round\<close> of it)
  and each prints as \<open>NaN\<close>. The matrix branch is reached by the three types of the table
  only.
\<close>

definition simulateCVD :: "string \<Rightarrow> CVDType \<Rightarrow> string" where
  "simulateCVD hex cvdType =
     (if cvdType = none then hex
      else
        (let cleanHex = remove1 (CHR ''#'') hex
         in case (parseInt16 (take 2 cleanHex),
                  parseInt16 (take 2 (drop 2 cleanHex)),
                  parseInt16 (take 2 (drop 4 cleanHex))) of
              (Some r', Some g', Some b') \<Rightarrow>
                (let linearRgb = (srgbToLinear (real_of_int r'), srgbToLinear (real_of_int g'),
                                  srgbToLinear (real_of_int b'));
                     simulatedLinear =
                       (if cvdType = achromatopsia
                        then (let gray = fst linearRgb * GRAYSCALE_WEIGHTS ! 0
                                       + fst (snd linearRgb) * GRAYSCALE_WEIGHTS ! 1
                                       + snd (snd linearRgb) * GRAYSCALE_WEIGHTS ! 2
                              in (gray, gray, gray))
                        else applyMatrix linearRgb (the (CVD_MATRICES cvdType)));
                     newR = linearToSrgb (fst simulatedLinear);
                     newG = linearToSrgb (fst (snd simulatedLinear));
                     newB = linearToSrgb (snd (snd simulatedLinear))
                 in toUpperCase (''#'' @ padStart 2 (CHR ''0'') (toString16 (nat newR))
                                       @ padStart 2 (CHR ''0'') (toString16 (nat newG))
                                       @ padStart 2 (CHR ''0'') (toString16 (nat newB))))
            | _ \<Rightarrow> toUpperCase (''#'' @ ''NaN'' @ ''NaN'' @ ''NaN'')))"

section \<open>palette.ts\<close>

record PaletteColor =
  id' :: string
  name :: string
  hex :: string

text \<open>The field \<open>ratio\<close> of a matrix cell is named \<open>cellRatio\<close> here, apart from the
  field \<open>ratio\<close> of a \<open>ContrastResult\<close>.\<close>

record ContrastMatrixCell =
  foregroundId :: string
  backgroundId :: string
  cellRatio :: real
  compliance :: ContrastResult

definition calculatePairContrast :: "PaletteColor \<Rightarrow> PaletteColor \<Rightarrow> real" where
  "calculatePairContrast foreground background =
     (case (hexToRgb (hex foreground), hexToRgb (hex background)) of
        (Some fgRgb, Some bgRgb) \<Rightarrow> getContrastRatio fgRgb bgRgb
      | _ \<Rightarrow> 1)"

definition generateContrastMatrix :: "PaletteColor list \<Rightarrow> ContrastMatrixCell list list" where
  "generateContrastMatrix colors =
     map (\<lambda>bgColor.
            map (\<lambda>fgColor.
                   (let x = calculatePairContrast fgColor bgColor
                    in \<lparr>foregroundId = id' fgColor,
                        backgroundId = id' bgColor,
                        cellRatio = x,
                        compliance = checkWCAGCompliance x\<rparr>))
                colors)
         colors"

subsection \<open>The exporters\<close>

text \<open>
  The character classes \<open>[a-z0-9]\<close> and \<open>[a-zA-Z0-9]\<close> of the key patterns, and
  \<open>Array.prototype.join\<close>.
\<close>

definition isLowerAlnum :: "char \<Rightarrow> bool" where
  "isLowerAlnum c = (isLower c \<or> isDigit c)"

definition isAlnum :: "char \<Rightarrow> bool" where
  "isAlnum c = (isLower c \<or> isUpper c \<or> isDigit c)"

fun join :: "string \<Rightarrow> string list \<Rightarrow> string" where
  "join sep [] = []"
| "join sep [x] = x"
| "join sep (x # y # ys) = x @ sep @ join sep (y # ys)"

text \<open>\<open>.replace(/[^a-z0-9]+/g, sep)\<close>: every maximal run of characters outside
  \<open>[a-z0-9]\<close> becomes the one character \<open>sep\<close>.\<close>

function replaceRuns :: "char \<Rightarrow> string \<Rightarrow> string" where
  "replaceRuns sep [] = []"
| "replaceRuns sep (c # cs) =
     (if isLowerAlnum c then c # replaceRuns sep cs
      else sep # replaceRuns sep (dropWhile (\<lambda>x. \<not> isLowerAlnum x) cs))"
  by pat_completeness auto
termination
  by (relation "measure (\<lambda>(sep, cs). length cs)")
    (auto simp: less_Suc_eq_le length_dropWhile_le)

text \<open>\<open>.replace(/^-|-$/g, '')\<close> and \<open>.replace(/^_|_$/g, '')\<close>: one separator at the start
  and one at the end are removed.\<close>

definition stripEnds :: "char \<Rightarrow> string \<Rightarrow> string" where
  "stripEnds sep str =
     (let s1 = (case str of [] \<Rightarrow> [] | c # t \<Rightarrow> if c = sep then t else str)
      in if s1 \<noteq> [] \<and> last s1 = sep then butlast s1 else s1)"

text \<open>The key that each exporter derives from the name of a colour.\<close>

definition exportAsCSS_varName :: "string \<Rightarrow> string" where
  "exportAsCSS_varName nm = stripEnds (CHR ''-'') (replaceRuns (CHR ''-'') (toLowerCase nm))"

definition exportAsJSON_key :: "string \<Rightarrow> string" where
  "exportAsJSON_key nm = stripEnds (CHR ''_'') (replaceRuns (CHR ''_'') (toLowerCase nm))"

definition exportAsTailwind_key :: "string \<Rightarrow> string" where
  "exportAsTailwind_key nm = stripEnds (CHR ''-'') (replaceRuns (CHR ''-'') (toLowerCase nm))"

definition exportAsSCSS_varName :: "string \<Rightarrow> string" where
  "exportAsSCSS_varName nm = stripEnds (CHR ''-'') (replaceRuns (CHR ''-'') (toLowerCase nm))"

definition exportAsSCSS_key :: "string \<Rightarrow> string" where
  "exportAsSCSS_key nm = stripEnds (CHR ''-'') (replaceRuns (CHR ''-'') (toLowerCase nm))"

definition exportAsDesignTokens_key :: "string \<Rightarrow> string" where
  "exportAsDesignTokens_key nm =
     stripEnds (CHR ''-'') (replaceRuns (CHR ''-'') (toLowerCase nm))"

definition exportAsAndroidXML_name :: "string \<Rightarrow> string" where
  "exportAsAndroidXML_name nm =
     stripEnds (CHR ''_'') (replaceRuns (CHR ''_'') (toLowerCase nm))"

text \<open>
  The property name of the Swift exporter, in three steps.

  \<open>.replace(/[^a-zA-Z0-9]+(.)/g, (_, chr) => chr.toUpperCase())\<close>: a maximal run of
  characters outside \<open>[a-zA-Z0-9]\<close> and the character after it become that character in
  upper case. A run that reaches the end of the text has no character after it: the
  pattern then matches a shorter run, up to the last character of the run that is not a
  line terminator, which it keeps (in upper case), and it leaves the text unchanged when
  there is no such match.
\<close>

definition trailingRun :: "string \<Rightarrow> string" where
  "trailingRun xs =
     (let ys = rev (dropWhile isLineTerminator (rev (tl xs)))
      in if ys = [] then xs else toUpperChar (last ys) # drop (length ys + 1) xs)"

function camelReplace :: "string \<Rightarrow> string" where
  "camelReplace [] = []"
| "camelReplace (c # cs) =
     (if isAlnum c then c # camelReplace cs
      else (case dropWhile (\<lambda>x. \<not> isAlnum x) cs of
              [] \<Rightarrow> trailingRun (c # cs)
            | d # ds \<Rightarrow> toUpperChar d # camelReplace ds))"
  by pat_completeness auto
termination
proof (relation "measure length")
  show "wf (measure length)" by simp
next
  fix c :: char and cs :: string
  show "(cs, c # cs) \<in> measure length" by simp
next
  fix c d :: char and cs ds :: string
  assume "dropWhile (\<lambda>x. \<not> isAlnum x) cs = d # ds"
  then have "length (d # ds) \<le> length cs"
    using length_dropWhile_le [of "\<lambda>x. \<not> isAlnum x" cs] by simp
  then show "(ds, c # cs) \<in> measure length" by simp
qed

text \<open>\<open>.replace(/[^a-zA-Z0-9]/g, '')\<close> keeps the characters of \<open>[a-zA-Z0-9]\<close>, and
  \<open>.replace(/^./, (chr) => chr.toLowerCase())\<close> puts a first character that is not a line
  terminator in lower case.\<close>

definition lowerFirst :: "string \<Rightarrow> string" where
  "lowerFirst str =
     (case str of [] \<Rightarrow> []
      | c # t \<Rightarrow> if isLineTerminator c then str else toLowerChar c # t)"

definition exportAsSwift_propertyName :: "string \<Rightarrow> string" where
  "exportAsSwift_propertyName nm = lowerFirst (filter isAlnum (camelReplace nm))"

text \<open>
  The exporters whose output is a list of lines joined by a line feed. The two exporters
  that build an object and print it with \<open>JSON.stringify\<close> are present by their keys
  only. In \<open>exportAsSwift\<close> a channel that \<open>parseInt\<close> could not read is NaN, and
  \<open>toFixed\<close> prints it as \<open>NaN\<close>.
\<close>

definition exportAsCSS :: "PaletteColor list \<Rightarrow> string" where
  "exportAsCSS colors =
     join [CHR 0x0A]
       (['':root {''] @
        map (\<lambda>color. ''  --color-'' @ exportAsCSS_varName (name color) @ '': ''
                        @ hex color @ '';'') colors @
        [''}''])"

definition exportAsTailwind :: "PaletteColor list \<Rightarrow> string" where
  "exportAsTailwind colors =
     join [CHR 0x0A]
       ([''module.exports = {'', ''  theme: {'', ''    extend: {'', ''      colors: {''] @
        map (\<lambda>color. ''        '' @ [CHR 0x27] @ exportAsTailwind_key (name color)
                        @ [CHR 0x27] @ '': '' @ [CHR 0x27] @ hex color @ [CHR 0x27] @ '','')
            colors @
        [''      },'', ''    },'', ''  },'', ''};''])"

definition exportAsSCSS :: "PaletteColor list \<Rightarrow> string" where
  "exportAsSCSS colors =
     join [CHR 0x0A]
       (map (\<lambda>color. ''$color-'' @ exportAsSCSS_varName (name color) @ '': ''
                       @ hex color @ '';'') colors @
        [[], ''$colors: (''] @
        map (\<lambda>color. ''  '' @ [CHR 0x27] @ exportAsSCSS_key (name color) @ [CHR 0x27]
                       @ '': '' @ hex color @ '','') colors @
        ['');''])"

definition swiftComponent :: "int option \<Rightarrow> string" where
  "swiftComponent v =
     (case v of None \<Rightarrow> ''NaN'' | Some n \<Rightarrow> toFixed 3 (real_of_int n / 255))"

definition exportAsSwift_line :: "PaletteColor \<Rightarrow> string" where
  "exportAsSwift_line color =
     (let propertyName = exportAsSwift_propertyName (name color);
          hex' = remove1 (CHR ''#'') (hex color);
          r' = parseInt16 (take 2 hex');
          g' = parseInt16 (take 2 (drop 2 hex'));
          b' = parseInt16 (take 2 (drop 4 hex'))
      in ''        static let '' @ propertyName @ '' = UIColor(red: '' @ swiftComponent r'
         @ '', green: '' @ swiftComponent g' @ '', blue: '' @ swiftComponent b'
         @ '', alpha: 1.0)'')"

definition exportAsSwift :: "PaletteColor list \<Rightarrow> string" where
  "exportAsSwift colors =
     join [CHR 0x0A]
       ([''import UIKit'', [], ''extension UIColor {'', ''    struct Palette {''] @
        map exportAsSwift_line colors @
        [''    }'', ''}''])"

definition exportAsAndroidXML :: "PaletteColor list \<Rightarrow> string" where
  "exportAsAndroidXML colors =
     join [CHR 0x0A]
       ([''<?xml version='' @ [CHR 0x22] @ ''1.0'' @ [CHR 0x22] @ '' encoding=''
           @ [CHR 0x22] @ ''utf-8'' @ [CHR 0x22] @ ''?>'',
         ''<resources>''] @
        map (\<lambda>color. ''    <color name='' @ [CHR 0x22] @ exportAsAndroidXML_name (name color)
                        @ [CHR 0x22] @ ''>'' @ hex color @ ''</color>'') colors @
        [''</resources>''])"

section \<open>Notions of the specification\<close>

text \<open>An RGB value of the data model: three integer channels, each in \<open>[0, 255]\<close>.\<close>

definition isChannel :: "real \<Rightarrow> bool" where
  "isChannel c = (c = real_of_int \<lfloor>c\<rfloor> \<and> 0 \<le> c \<and> c \<le> 255)"

definition validRGB :: "RGB \<Rightarrow> bool" where
  "validRGB rgb = (isChannel (r rgb) \<and> isChannel (g rgb) \<and> isChannel (b rgb))"

text \<open>Channels that lie in \<open>[0, 255]\<close>, integer or not.\<close>

definition inGamut :: "RGB \<Rightarrow> bool" where
  "inGamut rgb = (0 \<le> r rgb \<and> r rgb \<le> 255 \<and> 0 \<le> g rgb \<and> g rgb \<le> 255
                  \<and> 0 \<le> b rgb \<and> b rgb \<le> 255)"

text \<open>The two-digit lowercase hexadecimal rendering of a number below 256, and the
  channel value the specification describes: clamped to \<open>[0, 255]\<close>, then rounded.\<close>

definition twoDigitHex :: "nat \<Rightarrow> string" where
  "twoDigitHex n = [hexDigit (n div 16), hexDigit (n mod 16)]"

definition clampRound :: "real \<Rightarrow> nat" where
  "clampRound c = nat (Math_round (max 0 (min 255 c)))"

definition isLowerHexDigit :: "char \<Rightarrow> bool" where
  "isLowerHexDigit c = (c \<in> set ''0123456789abcdef'')"

definition isUpperHexDigit :: "char \<Rightarrow> bool" where
  "isUpperHexDigit c = (c \<in> set ''0123456789ABCDEF'')"

text \<open>A palette of two colours, the second with a hex text of five digits.\<close>

definition samplePalette :: "PaletteColor list" where
  "samplePalette = [\<lparr>id' = ''c1'', name = ''Ink'', hex = ''#000000''\<rparr>,
                    \<lparr>id' = ''c2'', name = ''Oops'', hex = ''#12345''\<rparr>]"

text \<open>A valid hex colour of six digits, with or without the leading \<open>#\<close>.\<close>

definition validHex6 :: "string \<Rightarrow> bool" where
  "validHex6 hx = (isValidHex hx \<and> (length hx = 6 \<or> length hx = 7))"

text \<open>
  The grey level of the specification, from its own formulas. A channel is delinearised
  by the sRGB transfer function (threshold 0.04045, divisor 12.92 below it,
  \<open>((c + 0.055) / 1.055) ^ 2.4\<close> above it); a linear value is encoded again by the inverse
  (threshold 0.0031308, factor 12.92 below it, \<open>1.055 c ^ (1 / 2.4) - 0.055\<close> above it),
  scaled to 255, clamped to \<open>[0, 255]\<close> and rounded to the nearest integer. The grey level
  is the encoding of the sum of the linear channels weighted by 0.2126, 0.7152 and 0.0722.
\<close>

definition delinearize :: "real \<Rightarrow> real" where
  "delinearize c =
     (if c / 255 \<le> 0.04045 then c / 255 / 12.92 else ((c / 255 + 0.055) / 1.055) powr 2.4)"

definition reencode :: "real \<Rightarrow> real" where
  "reencode x =
     real_of_int (round (max 0 (min 255
       (255 * (if x \<le> 0.0031308 then 12.92 * x else 1.055 * x powr (1 / 2.4) - 0.055)))))"

definition achromaticLevel :: "RGB \<Rightarrow> real" where
  "achromaticLevel rgb =
     reencode (0.2126 * delinearize (r rgb) + 0.7152 * delinearize (g rgb)
               + 0.0722 * delinearize (b rgb))"








text \<open>The number that a decimal numeral without sign denotes: the digits before the
  point, and the digits after it over the matching power of ten.\<close>

definition digitsValue :: "string \<Rightarrow> nat" where
  "digitsValue ds = foldl (\<lambda>a c. 10 * a + ((of_char c :: nat) - 48)) 0 ds"

definition decimalValue :: "string \<Rightarrow> real" where
  "decimalValue str =
     (let ip = takeWhile (\<lambda>c. c \<noteq> CHR ''.'') str;
          fp = drop 1 (dropWhile (\<lambda>c. c \<noteq> CHR ''.'') str)
      in real (digitsValue ip) + real (digitsValue fp) / 10 ^ length fp)"

text \<open>A name written in ASCII: every character has a code below 128.\<close>

definition asciiName :: "string \<Rightarrow> bool" where
  "asciiName nm = list_all (\<lambda>c. (of_char c :: nat) < 128) nm"

text \<open>
  The words of a name: its maximal runs of characters of \<open>[a-zA-Z0-9]\<close>, in order. Two
  names differ only in letter case or in punctuation when their words, put in lower
  case, are the same; they differ only in the case of initials or in punctuation when
  their words are the same up to the case of the first letter of each word.
\<close>

function nameWords :: "string \<Rightarrow> string list" where
  "nameWords [] = []"
| "nameWords (c # cs) =
     (if isAlnum c then (c # takeWhile isAlnum cs) # nameWords (dropWhile isAlnum cs)
      else nameWords cs)"
  by pat_completeness auto
termination
  by (relation "measure length") (auto simp: less_Suc_eq_le length_dropWhile_le)

definition differOnlyInCaseOrPunctuation :: "string \<Rightarrow> string \<Rightarrow> bool" where
  "differOnlyInCaseOrPunctuation a c =
     (map toLowerCase (nameWords a) = map toLowerCase (nameWords c))"

definition differOnlyInInitialsOrPunctuation :: "string \<Rightarrow> string \<Rightarrow> bool" where
  "differOnlyInInitialsOrPunctuation a c =
     (map lowerFirst (nameWords a) = map lowerFirst (nameWords c))"

text \<open>A name that ends with a character outside \<open>[a-zA-Z0-9]\<close>.\<close>

definition endsInGap :: "string \<Rightarrow> bool" where
  "endsInGap xs = (xs \<noteq> [] \<and> \<not> isAlnum (last xs))"

text \<open>Camel case of a list of words: the first word with its first letter in lower
  case, every other word with its first letter in upper case.\<close>

definition capitalize :: "string \<Rightarrow> string" where
  "capitalize w = (case w of [] \<Rightarrow> [] | c # t \<Rightarrow> toUpperChar c # t)"

definition camelCase :: "string list \<Rightarrow> string" where
  "camelCase ws = (case ws of [] \<Rightarrow> [] | w # rest \<Rightarrow> lowerFirst w @ concat (map capitalize rest))"

section \<open>Hexadecimal digits\<close>

lemma lt16_cases: "d < 16 \<Longrightarrow> d \<in> {0, 1, 2, 3, 4, 5, 6, 7, 8, 9, 10, 11, 12, 13, 14, 15 :: nat}"
  by simp arith

lemma hexDigit_props:
  assumes "d < 16"
  shows "isHexDigit (hexDigit d)" and "hexDigitVal (hexDigit d) = d"
    and "\<not> isWhiteSpace (hexDigit d)" and "hexDigit d \<noteq> CHR ''-''" and "hexDigit d \<noteq> CHR ''+''"
    and "hexDigit d \<noteq> CHR ''x''" and "hexDigit d \<noteq> CHR ''X''" and "hexDigit d \<noteq> CHR ''#''"
    and "isLowerHexDigit (hexDigit d)"
  using lt16_cases [OF assms]
  by (elim insertE emptyE;
      simp add: hexDigit_def isHexDigit_def hexDigitVal_def isDigit_def isLower_def
        isWhiteSpace_def isLowerHexDigit_def)+

lemma hexDigit_upper_props:
  assumes "d < 16"
  shows "isHexDigit (toUpperChar (hexDigit d))" and "hexDigitVal (toUpperChar (hexDigit d)) = d"
  using lt16_cases [OF assms]
  by (elim insertE emptyE;
      simp add: hexDigit_def isHexDigit_def hexDigitVal_def isDigit_def isLower_def
        toUpperChar_def)+

lemma parseInt16_pair:
  assumes "a < 16" "c < 16"
  shows "parseInt16 [hexDigit a, hexDigit c] = Some (int (16 * a + c))"
  using hexDigit_props [OF assms(1)] hexDigit_props [OF assms(2)]
  by (simp add: parseInt16_def Let_def)

lemma toString16_small: "n < 256 \<Longrightarrow> padStart 2 (CHR ''0'') (toString16 n) = twoDigitHex n"
  apply (subst toString16.simps)
  apply (subst toString16.simps)
  apply (auto simp: padStart_def twoDigitHex_def hexDigit_def)
  done

lemma Math_round_int: "Math_round (real_of_int k) = k"
  by (simp add: Math_round_def)

lemma Math_round_mono: "x \<le> y \<Longrightarrow> Math_round x \<le> Math_round y"
  by (simp add: Math_round_def floor_mono)

lemma twoDigitHex_parse: "n < 256 \<Longrightarrow> parseInt16 (twoDigitHex n) = Some (int n)"
  unfolding twoDigitHex_def by (subst parseInt16_pair) auto

lemma twoDigitHex_hex: "n < 256 \<Longrightarrow> list_all isHexDigit (twoDigitHex n)"
  unfolding twoDigitHex_def by (simp add: hexDigit_props)

lemma twoDigitHex_lower: "n < 256 \<Longrightarrow> list_all isLowerHexDigit (twoDigitHex n)"
  unfolding twoDigitHex_def by (simp add: hexDigit_props)

lemma twoDigitHex_length: "length (twoDigitHex n) = 2"
  by (simp add: twoDigitHex_def)

section \<open>The colour codec\<close>

text \<open>Rounding and then clamping, as \<open>toHex\<close> does, is clamping and then rounding.\<close>

lemma round_clamp_commute:
  "max 0 (min 255 (Math_round n)) = Math_round (max 0 (min 255 n))"
proof -
  have z: "Math_round 0 = 0" and t: "Math_round 255 = 255"
    using Math_round_int [of 0] Math_round_int [of 255] by simp_all
  consider "n \<le> 0" | "0 < n" "n < 255" | "255 \<le> n" by linarith
  then show ?thesis
  proof cases
    case 1
    then have "Math_round n \<le> 0" using Math_round_mono [of n 0] z by simp
    with 1 show ?thesis by (simp add: z max_def min_def)
  next
    case 2
    then have "0 \<le> Math_round n" "Math_round n \<le> 255"
      using Math_round_mono [of 0 n] Math_round_mono [of n 255] z t by simp_all
    with 2 show ?thesis by (simp add: max_def min_def)
  next
    case 3
    then have "255 \<le> Math_round n" using Math_round_mono [of 255 n] t by simp
    with 3 show ?thesis by (simp add: t max_def min_def)
  qed
qed

lemma clampRound_lt: "clampRound c < 256"
proof -
  have "Math_round (max 0 (min 255 c)) \<le> Math_round 255"
    by (rule Math_round_mono) simp
  then show ?thesis
    using Math_round_int [of 255] by (simp add: clampRound_def)
qed

lemma toHex_clampRound: "toHex n = twoDigitHex (clampRound n)"
proof -
  have "toHex n = padStart 2 (CHR ''0'') (toString16 (clampRound n))"
    by (simp add: toHex_def Let_def round_clamp_commute clampRound_def)
  then show ?thesis by (simp add: toString16_small clampRound_lt)
qed

lemma clampRound_channel: "isChannel c \<Longrightarrow> real (clampRound c) = c"
proof -
  assume a: "isChannel c"
  define k where "k = \<lfloor>c\<rfloor>"
  from a have c: "c = real_of_int k" and k: "0 \<le> k" "k \<le> 255"
    by (auto simp: isChannel_def k_def)
  have "max 0 (min 255 c) = real_of_int k" using k by (simp add: c)
  then show ?thesis using k by (simp add: clampRound_def Math_round_int c)
qed

lemma hexToRgb_digits:
  assumes "i < 256" "j < 256" "k < 256"
  shows "hexToRgb (CHR ''#'' # twoDigitHex i @ twoDigitHex j @ twoDigitHex k)
         = Some \<lparr>r = real i, g = real j, b = real k\<rparr>"
  using assms
  by (simp add: hexToRgb_def Let_def twoDigitHex_length twoDigitHex_hex twoDigitHex_parse)

text \<open>
  Claim C3. For every RGB value with integer channels in \<open>[0, 255]\<close>, parsing the text
  that \<open>rgbToHex\<close> produces gives the same RGB value back:
  \<open>hexToRgb (rgbToHex rgb) = rgb\<close>.
\<close>

theorem hexToRgb_rgbToHex:
  assumes "validRGB rgb"
  shows "hexToRgb (rgbToHex rgb) = Some rgb"
proof -
  from assms have ch: "isChannel (r rgb)" "isChannel (g rgb)" "isChannel (b rgb)"
    by (simp_all add: validRGB_def)
  have "hexToRgb (rgbToHex rgb)
        = Some \<lparr>r = real (clampRound (r rgb)), g = real (clampRound (g rgb)),
                b = real (clampRound (b rgb))\<rparr>"
    by (simp add: rgbToHex_def toHex_clampRound hexToRgb_digits clampRound_lt)
  then show ?thesis by (simp add: clampRound_channel ch)
qed

theorem hexToRgb_rgbToHex_witness:
  "validRGB \<lparr>r = 18, g = 171, b = 255\<rparr>
   \<and> rgbToHex \<lparr>r = 18, g = 171, b = 255\<rparr> = ''#12abff''
   \<and> hexToRgb ''#12abff'' = Some \<lparr>r = 18, g = 171, b = 255\<rparr>"
proof -
  have v: "validRGB \<lparr>r = 18, g = 171, b = 255\<rparr>"
    by (simp add: validRGB_def isChannel_def)
  have c: "clampRound 18 = 18" "clampRound 171 = 171" "clampRound 255 = 255"
    using Math_round_int [of 18] Math_round_int [of 171] Math_round_int [of 255]
    by (simp_all add: clampRound_def)
  have x: "rgbToHex \<lparr>r = 18, g = 171, b = 255\<rparr> = ''#12abff''"
    by (simp add: rgbToHex_def toHex_clampRound c twoDigitHex_def hexDigit_def)
  show ?thesis using v x hexToRgb_rgbToHex [OF v] by simp
qed

text \<open>
  Claim C4, as stated: \<open>rgbToHex\<close> renders every channel in uppercase hexadecimal. It
  does not: \<open>toString(16)\<close> gives lowercase digits and nothing in \<open>rgbToHex\<close> changes the
  case, so white is rendered \<open>#ffffff\<close>.
\<close>

theorem rgbToHex_uppercase_counterexample:
  "rgbToHex \<lparr>r = 255, g = 255, b = 255\<rparr> = ''#ffffff''
   \<and> \<not> list_all isUpperHexDigit (tl (rgbToHex \<lparr>r = 255, g = 255, b = 255\<rparr>))"
proof -
  have c: "clampRound 255 = 255"
    using Math_round_int [of 255] by (simp add: clampRound_def)
  have x: "rgbToHex \<lparr>r = 255, g = 255, b = 255\<rparr> = ''#ffffff''"
    by (simp add: rgbToHex_def toHex_clampRound c twoDigitHex_def hexDigit_def)
  show ?thesis by (simp add: x isUpperHexDigit_def)
qed

text \<open>
  Claim C4, amended. For every RGB input, \<open>rgbToHex\<close> returns \<open>#\<close> followed by the
  two-digit lowercase hexadecimal rendering of each channel clamped to \<open>[0, 255]\<close> and
  rounded to the nearest integer: a text of 7 characters, \<open>#\<close> and 6 lowercase
  hexadecimal digits.
\<close>

theorem rgbToHex_format:
  "rgbToHex rgb = ''#'' @ twoDigitHex (clampRound (r rgb)) @ twoDigitHex (clampRound (g rgb))
                        @ twoDigitHex (clampRound (b rgb))
   \<and> length (rgbToHex rgb) = 7
   \<and> hd (rgbToHex rgb) = CHR ''#''
   \<and> list_all isLowerHexDigit (tl (rgbToHex rgb))"
  by (simp add: rgbToHex_def toHex_clampRound twoDigitHex_length twoDigitHex_lower clampRound_lt)

theorem rgbToHex_format_witness:
  "rgbToHex \<lparr>r = 300, g = 25 / 2, b = - 4\<rparr> = ''#ff0d00''"
proof -
  have c: "clampRound 300 = 255" "clampRound (25 / 2) = 13" "clampRound (- 4) = 0"
    by (simp_all add: clampRound_def Math_round_def)
  show ?thesis
    using rgbToHex_format [of "\<lparr>r = 300, g = 25 / 2, b = - 4\<rparr>"]
    by (simp add: c twoDigitHex_def hexDigit_def)
qed

section \<open>Luminance and contrast\<close>


lemma channelLuminance_range:
  assumes "0 \<le> c" "c \<le> 255"
  shows "0 \<le> channelLuminance c" and "channelLuminance c \<le> 1"
proof -
  have b: "\<bar>(c / 255 + 0.055) / 1.055\<bar> \<le> 1"
    using assms by simp
  show "0 \<le> channelLuminance c"
    using assms by (simp add: channelLuminance_def Let_def)
  show "channelLuminance c \<le> 1"
    using assms powr_le1 [OF _ b, of "2.4"] by (simp add: channelLuminance_def Let_def)
qed

lemma getRelativeLuminance_range:
  assumes "inGamut rgb"
  shows "0 \<le> getRelativeLuminance rgb" and "getRelativeLuminance rgb \<le> 1"
proof -
  from assms have
    x: "0 \<le> channelLuminance (r rgb)" "channelLuminance (r rgb) \<le> 1" and
    y: "0 \<le> channelLuminance (g rgb)" "channelLuminance (g rgb) \<le> 1" and
    z: "0 \<le> channelLuminance (b rgb)" "channelLuminance (b rgb) \<le> 1"
    by (simp_all add: inGamut_def channelLuminance_range)
  show "0 \<le> getRelativeLuminance rgb"
    using x y z by (simp add: getRelativeLuminance_def)
  show "getRelativeLuminance rgb \<le> 1"
    using x y z by (simp add: getRelativeLuminance_def)
qed

lemma getContrastRatio_commute: "getContrastRatio c1 c2 = getContrastRatio c2 c1"
  by (simp add: getContrastRatio_def Let_def max.commute min.commute)

lemma getContrastRatio_range:
  assumes "inGamut c1" "inGamut c2"
  shows "1 \<le> getContrastRatio c1 c2" and "getContrastRatio c1 c2 \<le> 21"
proof -
  define hi where "hi = max (getRelativeLuminance c1) (getRelativeLuminance c2)"
  define lo where "lo = min (getRelativeLuminance c1) (getRelativeLuminance c2)"
  have lo: "0 \<le> lo" and hi: "hi \<le> 1" and le: "lo \<le> hi"
    using getRelativeLuminance_range [OF assms(1)] getRelativeLuminance_range [OF assms(2)]
    by (simp_all add: lo_def hi_def)
  have eq: "getContrastRatio c1 c2 = (hi + 0.05) / (lo + 0.05)"
    by (simp add: getContrastRatio_def Let_def hi_def lo_def)
  show "1 \<le> getContrastRatio c1 c2"
    unfolding eq using lo le by (simp add: field_simps)
  show "getContrastRatio c1 c2 \<le> 21"
    unfolding eq using lo hi by (simp add: field_simps)
qed

lemma getContrastRatio_self:
  assumes "inGamut x"
  shows "getContrastRatio x x = 1"
  using getRelativeLuminance_range(1) [OF assms] by (simp add: getContrastRatio_def Let_def)

lemma lum_black: "getRelativeLuminance \<lparr>r = 0, g = 0, b = 0\<rparr> = 0"
  by (simp add: getRelativeLuminance_def channelLuminance_def)

lemma lum_white: "getRelativeLuminance \<lparr>r = 255, g = 255, b = 255\<rparr> = 1"
  by (simp add: getRelativeLuminance_def channelLuminance_def)

text \<open>
  Claim C1. For every pair of RGB colours \<open>a\<close> and \<open>c\<close> (channels in \<open>[0, 255]\<close>),
  \<open>getContrastRatio a c\<close> equals \<open>getContrastRatio c a\<close>, the result lies in
  \<open>[1, 21]\<close>, and the ratio of a colour against itself is 1.
\<close>

theorem getContrastRatio_symmetric_bounded:
  assumes "inGamut a" "inGamut c"
  shows "getContrastRatio a c = getContrastRatio c a
         \<and> 1 \<le> getContrastRatio a c \<and> getContrastRatio a c \<le> 21
         \<and> getContrastRatio a a = 1"
  using assms getContrastRatio_commute [of a c] getContrastRatio_range [of a c]
    getContrastRatio_self [of a]
  by simp

theorem getContrastRatio_symmetric_bounded_witness:
  "inGamut \<lparr>r = 0, g = 0, b = 0\<rparr> \<and> inGamut \<lparr>r = 255, g = 255, b = 255\<rparr>
   \<and> getContrastRatio \<lparr>r = 0, g = 0, b = 0\<rparr> \<lparr>r = 255, g = 255, b = 255\<rparr> = 21
   \<and> getContrastRatio \<lparr>r = 255, g = 255, b = 255\<rparr> \<lparr>r = 0, g = 0, b = 0\<rparr> = 21
   \<and> getContrastRatio \<lparr>r = 0, g = 0, b = 0\<rparr> \<lparr>r = 0, g = 0, b = 0\<rparr> = 1"
proof -
  have k: "inGamut \<lparr>r = 0, g = 0, b = 0\<rparr>" and w: "inGamut \<lparr>r = 255, g = 255, b = 255\<rparr>"
    by (simp_all add: inGamut_def)
  have v: "getContrastRatio \<lparr>r = 0, g = 0, b = 0\<rparr> \<lparr>r = 255, g = 255, b = 255\<rparr> = 21"
    by (simp add: getContrastRatio_def lum_black lum_white)
  show ?thesis
    using k w v getContrastRatio_symmetric_bounded [OF k w] by simp
qed

section \<open>Parsing pairs of hexadecimal digits\<close>

lemma isHexDigit_props:
  assumes "isHexDigit c"
  shows "\<not> isWhiteSpace c" and "c \<noteq> CHR ''-''" and "c \<noteq> CHR ''+''"
    and "c \<noteq> CHR ''x''" and "c \<noteq> CHR ''X''" and "c \<noteq> CHR ''#''" and "hexDigitVal c < 16"
  using assms
  by (auto simp: isHexDigit_def hexDigitVal_def isDigit_def isLower_def isWhiteSpace_def)

lemma parseInt16_hex_pair:
  assumes "isHexDigit c" "isHexDigit d"
  shows "parseInt16 [c, d] = Some (int (16 * hexDigitVal c + hexDigitVal d))"
  using isHexDigit_props [OF assms(1)] isHexDigit_props [OF assms(2)] assms
  by (simp add: parseInt16_def Let_def)

lemma length6E:
  assumes "length xs = 6"
  obtains x0 x1 x2 x3 x4 x5 where "xs = [x0, x1, x2, x3, x4, x5]"
  using assms by (auto simp: numeral_eq_Suc length_Suc_conv)

section \<open>The contrast matrix\<close>

lemma hexToRgb_Some_channels:
  assumes "hexToRgb hx = Some x"
  shows "validRGB x"
proof -
  define sanitized where
    "sanitized = (case hx of [] \<Rightarrow> [] | c # t \<Rightarrow> if c = CHR ''#'' then t else hx)"
  define fullHex where
    "fullHex = (if length sanitized = 3 then concat (map (\<lambda>c. [c, c]) sanitized) else sanitized)"
  from assms have len: "length fullHex = 6" and hexd: "list_all isHexDigit fullHex"
    by (auto simp: hexToRgb_def Let_def sanitized_def fullHex_def split: if_splits)
  from len obtain x0 x1 x2 x3 x4 x5 where f: "fullHex = [x0, x1, x2, x3, x4, x5]"
    by (rule length6E)
  from hexd have d: "isHexDigit x0" "isHexDigit x1" "isHexDigit x2" "isHexDigit x3"
    "isHexDigit x4" "isHexDigit x5"
    by (simp_all add: f)
  have x: "x = \<lparr>r = real (16 * hexDigitVal x0 + hexDigitVal x1),
                 g = real (16 * hexDigitVal x2 + hexDigitVal x3),
                 b = real (16 * hexDigitVal x4 + hexDigitVal x5)\<rparr>"
    using assms len hexd
    unfolding hexToRgb_def Let_def sanitized_def [symmetric] fullHex_def [symmetric]
    by (simp add: f parseInt16_hex_pair d)
  have ch: "isChannel (real (16 * a + c))" if "a < 16" "c < 16" for a c
  proof -
    have "\<lfloor>real (16 * a + c)\<rfloor> = int (16 * a + c)" by (rule floor_of_nat)
    then show ?thesis using that unfolding isChannel_def by simp
  qed
  show ?thesis
    unfolding x validRGB_def
    by (simp del: of_nat_add of_nat_mult add: ch isHexDigit_props(7) d)
qed

lemma validRGB_inGamut: "validRGB x \<Longrightarrow> inGamut x"
  by (simp add: validRGB_def isChannel_def inGamut_def)

lemma calculatePairContrast_self: "calculatePairContrast c c = 1"
proof (cases "hexToRgb (hex c)")
  case None
  then show ?thesis by (simp add: calculatePairContrast_def)
next
  case (Some x)
  then have "inGamut x" by (intro validRGB_inGamut hexToRgb_Some_channels)
  then show ?thesis using Some by (simp add: calculatePairContrast_def getContrastRatio_self)
qed

lemma generateContrastMatrix_cell:
  assumes "i < length colors" "j < length colors"
  shows "generateContrastMatrix colors ! i ! j
         = \<lparr>foregroundId = id' (colors ! j),
            backgroundId = id' (colors ! i),
            cellRatio = calculatePairContrast (colors ! j) (colors ! i),
            compliance = checkWCAGCompliance (calculatePairContrast (colors ! j) (colors ! i))\<rparr>"
  using assms by (simp add: generateContrastMatrix_def Let_def)

lemma generateContrastMatrix_length:
  "length (generateContrastMatrix colors) = length colors"
  "i < length colors \<Longrightarrow> length (generateContrastMatrix colors ! i) = length colors"
  by (simp_all add: generateContrastMatrix_def)

text \<open>
  Claim C5. For every ordered list of \<open>N\<close> palette colours, \<open>generateContrastMatrix\<close>
  returns a grid of \<open>N\<close> rows of \<open>N\<close> cells in which the cell \<open>(i, j)\<close> has the id of
  the \<open>i\<close>-th colour as \<open>backgroundId\<close> and the id of the \<open>j\<close>-th colour as
  \<open>foregroundId\<close>, and every diagonal cell \<open>(i, i)\<close> has the ratio 1.
\<close>

theorem generateContrastMatrix_grid:
  assumes "i < length colors" "j < length colors"
  shows "length (generateContrastMatrix colors) = length colors
         \<and> length (generateContrastMatrix colors ! i) = length colors
         \<and> backgroundId (generateContrastMatrix colors ! i ! j) = id' (colors ! i)
         \<and> foregroundId (generateContrastMatrix colors ! i ! j) = id' (colors ! j)
         \<and> cellRatio (generateContrastMatrix colors ! i ! i) = 1"
  using assms
  by (simp add: generateContrastMatrix_length generateContrastMatrix_cell
      calculatePairContrast_self)

theorem generateContrastMatrix_grid_witness:
  "length (generateContrastMatrix samplePalette) = 2
   \<and> length (generateContrastMatrix samplePalette ! 0) = 2
   \<and> backgroundId (generateContrastMatrix samplePalette ! 0 ! 1) = ''c1''
   \<and> foregroundId (generateContrastMatrix samplePalette ! 0 ! 1) = ''c2''
   \<and> cellRatio (generateContrastMatrix samplePalette ! 0 ! 0) = 1"
  using generateContrastMatrix_grid [of 0 samplePalette 1]
  by (simp add: samplePalette_def)

lemma toFixed_2_1: "toFixed 2 1 = ''1.00''"
proof -
  have n: "toFixed_n 2 1 = 100" by (simp add: toFixed_n_def)
  have s: "toString10 100 = ''100''"
    by (simp add: toString10.simps hexDigit_def)
  show ?thesis by (simp add: toFixed_def n s padStart_def)
qed

lemma checkWCAGCompliance_1:
  "checkWCAGCompliance 1 =
     \<lparr>ratio = 1, ratioString = ''1.00:1'', normalTextAA = False, normalTextAAA = False,
      largeTextAA = False, largeTextAAA = False, uiComponents = False\<rparr>"
  by (simp add: checkWCAGCompliance_def formatContrastRatio_def toFixed_2_1
      WCAG_normalTextAA_def WCAG_normalTextAAA_def WCAG_largeTextAA_def
      WCAG_largeTextAAA_def WCAG_uiComponents_def)

lemma calculatePairContrast_unparsable:
  assumes "hexToRgb (hex fg) = None \<or> hexToRgb (hex bg) = None"
  shows "calculatePairContrast fg bg = 1"
  using assms by (auto simp: calculatePairContrast_def split: option.splits)

text \<open>
  Claim C10. When the hex text of either colour of a pair does not parse,
  \<open>calculatePairContrast\<close> returns the ratio 1; \<open>generateContrastMatrix\<close> still returns
  the whole grid, and the cell of such a pair carries the ratio 1 and the compliance
  record of the ratio 1, all of whose flags are false.
\<close>

theorem unparsable_hex_ratio_1:
  assumes "i < length colors" "j < length colors"
    and "hexToRgb (hex (colors ! i)) = None \<or> hexToRgb (hex (colors ! j)) = None"
  shows "calculatePairContrast (colors ! j) (colors ! i) = 1
         \<and> length (generateContrastMatrix colors) = length colors
         \<and> length (generateContrastMatrix colors ! i) = length colors
         \<and> generateContrastMatrix colors ! i ! j
           = \<lparr>foregroundId = id' (colors ! j),
              backgroundId = id' (colors ! i),
              cellRatio = 1,
              compliance = \<lparr>ratio = 1, ratioString = ''1.00:1'', normalTextAA = False,
                normalTextAAA = False, largeTextAA = False, largeTextAAA = False,
                uiComponents = False\<rparr>\<rparr>"
proof -
  have "calculatePairContrast (colors ! j) (colors ! i) = 1"
    using assms(3) by (intro calculatePairContrast_unparsable) auto
  then show ?thesis
    using assms(1,2)
    by (simp add: generateContrastMatrix_cell generateContrastMatrix_length checkWCAGCompliance_1)
qed


lemma hexToRgb_five_digits: "hexToRgb ''#12345'' = None"
  by (simp add: hexToRgb_def)

lemma hexToRgb_black: "hexToRgb ''#000000'' = Some \<lparr>r = 0, g = 0, b = 0\<rparr>"
  using hexToRgb_digits [of 0 0 0] by (simp add: twoDigitHex_def hexDigit_def)

theorem unparsable_hex_ratio_1_witness:
  "hexToRgb (hex (samplePalette ! 1)) = None
   \<and> calculatePairContrast (samplePalette ! 1) (samplePalette ! 0) = 1
   \<and> generateContrastMatrix samplePalette ! 0 ! 1
       = \<lparr>foregroundId = ''c2'', backgroundId = ''c1'', cellRatio = 1,
          compliance = \<lparr>ratio = 1, ratioString = ''1.00:1'', normalTextAA = False,
            normalTextAAA = False, largeTextAA = False, largeTextAAA = False,
            uiComponents = False\<rparr>\<rparr>"
proof -
  have n: "hexToRgb (hex (samplePalette ! 1)) = None"
    by (simp add: samplePalette_def hexToRgb_five_digits)
  show ?thesis
    using n unparsable_hex_ratio_1 [of 0 samplePalette 1]
    by (simp add: samplePalette_def)
qed

section \<open>Simulation of achromatopsia\<close>

lemma hexToRgb_upper_digits:
  assumes "i < 256" "j < 256" "k < 256"
  shows "hexToRgb (toUpperCase (''#'' @ twoDigitHex i @ twoDigitHex j @ twoDigitHex k))
         = Some \<lparr>r = real i, g = real j, b = real k\<rparr>"
proof -
  have m: "i mod 16 < 16" "j mod 16 < 16" "k mod 16 < 16" by simp_all
  have d: "i div 16 < 16" "j div 16 < 16" "k div 16 < 16" using assms by simp_all
  have hash: "toUpperChar (CHR ''#'') = CHR ''#''"
    by (simp add: toUpperChar_def isLower_def)
  show ?thesis
    using m d
    by (simp add: toUpperCase_def twoDigitHex_def hash hexToRgb_def Let_def
        hexDigit_upper_props parseInt16_hex_pair)
qed

lemma linearToSrgb_range: "0 \<le> linearToSrgb y" "linearToSrgb y \<le> 255"
proof -
  define z where "z = (if y \<le> 0.0031308 then y * 12.92 else 1.055 * y powr (1 / 2.4) - 0.055) * 255"
  have e: "linearToSrgb y = Math_round (max 0 (min 255 z))"
    by (simp add: linearToSrgb_def z_def Let_def)
  have "Math_round 0 \<le> Math_round (max 0 (min 255 z))" by (rule Math_round_mono) simp
  then show "0 \<le> linearToSrgb y" using Math_round_int [of 0] by (simp add: e)
  have "Math_round (max 0 (min 255 z)) \<le> Math_round 255" by (rule Math_round_mono) simp
  then show "linearToSrgb y \<le> 255" using Math_round_int [of 255] by (simp add: e)
qed

lemma validHex6_cases:
  assumes "validHex6 hx"
  obtains x0 x1 x2 x3 x4 x5 where
    "hx = [x0, x1, x2, x3, x4, x5] \<or> hx = CHR ''#'' # [x0, x1, x2, x3, x4, x5]"
    "list_all isHexDigit [x0, x1, x2, x3, x4, x5]"
proof -
  define body where "body = (case hx of [] \<Rightarrow> [] | c # t \<Rightarrow> if c = CHR ''#'' then t else hx)"
  from assms have v: "length body = 6 \<or> length body = 3" "list_all isHexDigit body"
    and n: "length hx = 6 \<or> length hx = 7"
    by (simp_all add: validHex6_def isValidHex_def body_def Let_def)
  have hb: "hx = body \<or> hx = CHR ''#'' # body"
    by (auto simp: body_def split: list.splits)
  with v n have "length body = 6" by auto
  then obtain x0 x1 x2 x3 x4 x5 where b: "body = [x0, x1, x2, x3, x4, x5]" by (rule length6E)
  show thesis using that [of x0 x1 x2 x3 x4 x5] hb v(2) unfolding b by simp
qed

lemma delinearize_srgbToLinear: "delinearize c = srgbToLinear c"
  by (simp add: delinearize_def srgbToLinear_def Let_def)

lemma reencode_linearToSrgb: "reencode x = real_of_int (linearToSrgb x)"
  by (simp add: reencode_def linearToSrgb_def Let_def Math_round_def round_def mult.commute)

text \<open>
  Claim C6. For every valid hex colour of six digits, \<open>simulateCVD\<close> under achromatopsia
  returns a colour whose three channels are equal, each being the grey level of the
  specification: the scalar \<open>0.2126 R + 0.7152 G + 0.0722 B\<close> of the delinearised channels
  (\<open>delinearize\<close>), encoded again through the sRGB transfer function (\<open>reencode\<close>). The
  arithmetic is that of the real numbers.
\<close>

theorem simulateCVD_achromatopsia:
  assumes "validHex6 hx"
  shows "\<exists>rgb. hexToRgb hx = Some rgb
           \<and> hexToRgb (simulateCVD hx achromatopsia)
             = Some \<lparr>r = achromaticLevel rgb, g = achromaticLevel rgb, b = achromaticLevel rgb\<rparr>
           \<and> simulateCVD hx achromatopsia
             = toUpperCase (''#'' @ twoDigitHex (nat \<lfloor>achromaticLevel rgb\<rfloor>)
                                  @ twoDigitHex (nat \<lfloor>achromaticLevel rgb\<rfloor>)
                                  @ twoDigitHex (nat \<lfloor>achromaticLevel rgb\<rfloor>))"
proof -
  from assms obtain x0 x1 x2 x3 x4 x5 where
    hx: "hx = [x0, x1, x2, x3, x4, x5] \<or> hx = CHR ''#'' # [x0, x1, x2, x3, x4, x5]" and
    dg: "list_all isHexDigit [x0, x1, x2, x3, x4, x5]"
    by (rule validHex6_cases)
  from dg have d: "isHexDigit x0" "isHexDigit x1" "isHexDigit x2" "isHexDigit x3"
    "isHexDigit x4" "isHexDigit x5" by simp_all
  define R G B where "R = 16 * hexDigitVal x0 + hexDigitVal x1"
    and "G = 16 * hexDigitVal x2 + hexDigitVal x3"
    and "B = 16 * hexDigitVal x4 + hexDigitVal x5"
  define rgb where "rgb = \<lparr>r = real R, g = real G, b = real B\<rparr>"
  have nh: "x0 \<noteq> CHR ''#''" "x1 \<noteq> CHR ''#''" "x2 \<noteq> CHR ''#''" "x3 \<noteq> CHR ''#''"
    "x4 \<noteq> CHR ''#''" "x5 \<noteq> CHR ''#''"
    using d by (simp_all add: isHexDigit_props)
  have clean: "remove1 (CHR ''#'') hx = [x0, x1, x2, x3, x4, x5]"
    using hx nh by auto
  have pr: "parseInt16 [x0, x1] = Some (int R)" "parseInt16 [x2, x3] = Some (int G)"
    "parseInt16 [x4, x5] = Some (int B)"
    by (simp_all only: parseInt16_hex_pair d R_def G_def B_def)
  have "hexToRgb hx = hexToRgb (CHR ''#'' # [x0, x1, x2, x3, x4, x5])"
    using hx nh by (auto simp: hexToRgb_def)
  also have "\<dots> = Some rgb"
    using dg by (simp add: hexToRgb_def Let_def pr rgb_def)
  finally have p: "hexToRgb hx = Some rgb" .
  define gray where "gray = 0.2126 * srgbToLinear (real R) + 0.7152 * srgbToLinear (real G)
                                + 0.0722 * srgbToLinear (real B)"
  define v where "v = linearToSrgb gray"
  have gw: "srgbToLinear (real R) * GRAYSCALE_WEIGHTS ! 0
            + srgbToLinear (real G) * GRAYSCALE_WEIGHTS ! Suc 0
            + srgbToLinear (real B) * GRAYSCALE_WEIGHTS ! 2 = gray"
    by (simp add: gray_def GRAYSCALE_WEIGHTS_def)
  have lv: "achromaticLevel rgb = real_of_int v"
    by (simp add: achromaticLevel_def rgb_def v_def gray_def delinearize_srgbToLinear
        reencode_linearToSrgb)
  have vr: "nat v < 256" "real (nat v) = real_of_int v"
    using linearToSrgb_range [of gray] by (simp_all add: v_def)
  have "simulateCVD hx achromatopsia
        = toUpperCase (''#'' @ padStart 2 (CHR ''0'') (toString16 (nat v))
                             @ padStart 2 (CHR ''0'') (toString16 (nat v))
                             @ padStart 2 (CHR ''0'') (toString16 (nat v)))"
    unfolding simulateCVD_def clean
    by (simp add: Let_def pr gw v_def)
  then have sim: "simulateCVD hx achromatopsia
             = toUpperCase (''#'' @ twoDigitHex (nat v) @ twoDigitHex (nat v) @ twoDigitHex (nat v))"
    by (simp only: toString16_small [OF vr(1)])
  show ?thesis
  proof (intro exI conjI)
    show "hexToRgb hx = Some rgb" by (rule p)
    show "hexToRgb (simulateCVD hx achromatopsia)
          = Some \<lparr>r = achromaticLevel rgb, g = achromaticLevel rgb, b = achromaticLevel rgb\<rparr>"
      by (simp only: sim hexToRgb_upper_digits [OF vr(1) vr(1) vr(1)] vr(2) lv)
    show "simulateCVD hx achromatopsia
          = toUpperCase (''#'' @ twoDigitHex (nat \<lfloor>achromaticLevel rgb\<rfloor>)
                               @ twoDigitHex (nat \<lfloor>achromaticLevel rgb\<rfloor>)
                               @ twoDigitHex (nat \<lfloor>achromaticLevel rgb\<rfloor>))"
      by (simp only: sim lv floor_of_int)
  qed
qed

lemma powr_five_twelfths:
  fixes x :: real
  assumes "0 < x"
  shows "0 \<le> a \<Longrightarrow> a ^ 12 \<le> x ^ 5 \<Longrightarrow> a \<le> x powr (5 / 12)"
    and "0 \<le> c \<Longrightarrow> x ^ 5 \<le> c ^ 12 \<Longrightarrow> x powr (5 / 12) \<le> c"
proof -
  define y where "y = x powr (5 / 12)"
  have y0: "0 < y" using assms by (simp add: y_def)
  have "y ^ 12 = y powr 12" using y0 by (simp add: powr_numeral)
  also have "\<dots> = x powr 5" by (simp add: y_def powr_powr)
  also have "\<dots> = x ^ 5" using assms by (simp add: powr_numeral)
  finally have e: "y ^ 12 = x ^ 5" .
  show "0 \<le> a \<Longrightarrow> a ^ 12 \<le> x ^ 5 \<Longrightarrow> a \<le> x powr (5 / 12)"
    using y0 power_le_imp_le_base [of a 11 y] by (simp add: e y_def [symmetric])
  show "0 \<le> c \<Longrightarrow> x ^ 5 \<le> c ^ 12 \<Longrightarrow> x powr (5 / 12) \<le> c"
    using y0 power_le_imp_le_base [of y 11 c] by (simp add: e y_def [symmetric])
qed

lemma hexToRgb_red: "hexToRgb ''#FF0000'' = Some \<lparr>r = 255, g = 0, b = 0\<rparr>"
  using hexToRgb_upper_digits [of 255 0 0]
  by (simp add: twoDigitHex_def hexDigit_def toUpperCase_def toUpperChar_def isLower_def)

lemma achromaticLevel_red: "achromaticLevel \<lparr>r = 255, g = 0, b = 0\<rparr> = 127"
proof -
  define y :: real where "y = 0.2126 powr (5 / 12)"
  have lo: "0.5225 \<le> y"
    unfolding y_def by (rule powr_five_twelfths(1)) (simp_all add: power_divide)
  have hi: "y \<le> 0.526"
    unfolding y_def by (rule powr_five_twelfths(2)) (simp_all add: power_divide)
  define w where "w = 255 * (1.055 * y - 0.055)"
  have w: "126.5 \<le> w" "w < 127.5" using lo hi by (simp_all add: w_def)
  then have "round (max 0 (min 255 w)) = 127"
    by (simp add: round_def) linarith
  then have "reencode 0.2126 = 127"
    by (simp add: reencode_def w_def y_def)
  then show ?thesis by (simp add: achromaticLevel_def delinearize_def)
qed

theorem simulateCVD_achromatopsia_witness:
  "validHex6 ''#FF0000''
   \<and> hexToRgb ''#FF0000'' = Some \<lparr>r = 255, g = 0, b = 0\<rparr>
   \<and> achromaticLevel \<lparr>r = 255, g = 0, b = 0\<rparr> = 127
   \<and> hexToRgb (simulateCVD ''#FF0000'' achromatopsia) = Some \<lparr>r = 127, g = 127, b = 127\<rparr>
   \<and> simulateCVD ''#FF0000'' achromatopsia = ''#7F7F7F''"
proof -
  have v: "validHex6 ''#FF0000''"
    by (simp add: validHex6_def isValidHex_def isHexDigit_def isDigit_def isLower_def
        toLowerCase_def toLowerChar_def isUpper_def)
  have u: "toUpperCase (''#'' @ twoDigitHex 127 @ twoDigitHex 127 @ twoDigitHex 127) = ''#7F7F7F''"
    by (simp add: toUpperCase_def toUpperChar_def isLower_def twoDigitHex_def hexDigit_def)
  from simulateCVD_achromatopsia [OF v]
  have a: "hexToRgb (simulateCVD ''#FF0000'' achromatopsia) = Some \<lparr>r = 127, g = 127, b = 127\<rparr>"
    and c: "simulateCVD ''#FF0000'' achromatopsia
            = toUpperCase (''#'' @ twoDigitHex 127 @ twoDigitHex 127 @ twoDigitHex 127)"
    by (auto simp: hexToRgb_red achromaticLevel_red)
  show ?thesis
    using v a c [unfolded u] hexToRgb_red achromaticLevel_red by blast
qed

section \<open>The search for a passing colour\<close>



















lemma rgbToHsl_red: "rgbToHsl \<lparr>r = 255, g = 0, b = 0\<rparr> = \<lparr>h = 0, s = 100, l = 50\<rparr>"
  by (simp add: rgbToHsl_def)

















section \<open>The channel numerals of the Swift exporter\<close>

lemma lt10_cases: "d < 10 \<Longrightarrow> d \<in> {0, 1, 2, 3, 4, 5, 6, 7, 8, 9 :: nat}"
  by simp arith

lemma decDigit_props:
  assumes "d < 10"
  shows "(of_char (hexDigit d) :: nat) - 48 = d" and "hexDigit d \<noteq> CHR ''.''"
  using lt10_cases [OF assms]
  by (elim insertE emptyE; simp add: hexDigit_def)+

lemma replicate_small:
  "replicate 1 c = [c]" "replicate 2 c = [c, c]" "replicate 3 c = [c, c, c]"
  by (simp_all add: numeral_2_eq_2 numeral_3_eq_3)

lemma toString10_four:
  assumes "n < 10000"
  shows "padStart 4 (CHR ''0'') (toString10 n)
         = [hexDigit (n div 1000), hexDigit (n div 100 mod 10), hexDigit (n div 10 mod 10),
            hexDigit (n mod 10)]"
proof -
  have z: "hexDigit 0 = CHR ''0''" by (simp add: hexDigit_def)
  consider "n < 10" | "10 \<le> n" "n < 100" | "100 \<le> n" "n < 1000" | "1000 \<le> n"
    by linarith
  then show ?thesis
  proof cases
    case 1
    then show ?thesis by (simp add: toString10.simps [of n] padStart_def z replicate_small)
  next
    case 2
    then have a: "n div 10 < 10" "n div 100 = 0" "n div 1000 = 0" "\<not> n < 10" by simp_all
    show ?thesis
      by (simp add: toString10.simps [of n] toString10.simps [of "n div 10"] a padStart_def z
          replicate_small)
  next
    case 3
    then have a: "\<not> n < 10" "\<not> n div 10 < 10" "n div 10 div 10 < 10" "n div 1000 = 0"
      by simp_all
    have b: "n div 10 div 10 = n div 100" by (simp add: div_mult2_eq [symmetric])
    have c: "n div 100 mod 10 = n div 100" using 3 by simp
    show ?thesis
      by (simp add: toString10.simps [of n] toString10.simps [of "n div 10"]
          toString10.simps [of "n div 10 div 10"] a padStart_def z replicate_small)
        (simp add: b c)
  next
    case 4
    then have a: "\<not> n < 10" "\<not> n div 10 < 10" "\<not> n div 10 div 10 < 10"
      "n div 10 div 10 div 10 < 10"
      using assms by simp_all
    have b: "n div 10 div 10 = n div 100" "n div 10 div 10 div 10 = n div 1000"
      "n div 100 div 10 = n div 1000"
      by (simp_all add: div_mult2_eq [symmetric])
    show ?thesis
      by (simp add: toString10.simps [of n] toString10.simps [of "n div 10"]
          toString10.simps [of "n div 10 div 10"] toString10.simps [of "n div 10 div 10 div 10"]
          a padStart_def)
        (simp add: b)
  qed
qed


lemma digits_four: 
  "1000 * (n div 1000) + (100 * (n div 100 mod 10) + 10 * (n div 10 mod 10) + n mod 10) = (n::nat)"
proof -
  define q1 q2 q3 d0 d1 d2 where "q1 = n div 10" and "q2 = n div 100" and "q3 = n div 1000"
    and "d0 = n mod 10" and "d1 = n div 10 mod 10" and "d2 = n div 100 mod 10"
  have s2: "q2 = q1 div 10" and s3: "q3 = q2 div 10"
    unfolding q1_def q2_def q3_def by (simp_all only: div_mult2_eq [symmetric]) simp_all
  have h1: "n = 10 * q1 + d0" unfolding q1_def d0_def by (rule mult_div_mod_eq [symmetric])
  have h2: "q1 = 10 * q2 + d1" unfolding s2 d1_def q1_def [symmetric]
    by (rule mult_div_mod_eq [symmetric])
  have h3: "q2 = 10 * q3 + d2" unfolding s3 d2_def q2_def [symmetric]
    by (rule mult_div_mod_eq [symmetric])
  have "1000 * q3 + (100 * d2 + 10 * d1 + d0) = n"
    using h1 h2 h3 by linarith
  then show ?thesis
    unfolding q3_def d2_def d1_def d0_def .
qed

lemma toFixed_n_unit:
  assumes "0 \<le> x" "x \<le> 1"
  shows "toFixed_n 3 x \<le> 1000"
proof -
  have "\<lfloor>x * 1000 + 1 / 2\<rfloor> \<le> \<lfloor>(1000::real) + 1 / 2\<rfloor>"
    using assms by (intro floor_mono) simp
  also have "\<lfloor>(1000::real) + 1 / 2\<rfloor> = 1000" by linarith
  finally have fl: "\<lfloor>x * 1000 + 1 / 2\<rfloor> \<le> 1000" .
  have ax: "\<bar>x\<bar> = x" using assms by simp
  have "nat \<lfloor>x * 1000 + 1 / 2\<rfloor> \<le> 1000"
    using fl by (simp add: nat_le_iff)
  then show "toFixed_n 3 x \<le> 1000"
    by (simp add: toFixed_n_def ax)
qed


lemma toFixed3_text:
  assumes "0 \<le> x" "n = toFixed_n 3 x" "n < 10000"
  shows "toFixed 3 x = [hexDigit (n div 1000), CHR ''.'', hexDigit (n div 100 mod 10),
                         hexDigit (n div 10 mod 10), hexDigit (n mod 10)]"
proof -
  have nx: "\<not> x < 0" using assms(1) by simp
  show ?thesis
    unfolding toFixed_def assms(2) [symmetric] Let_def
    by (simp add: toString10_four [OF assms(3)] nx)
qed

lemma decimalValue_digits:
  assumes "a < 10" "d2 < 10" "d1 < 10" "d0 < 10"
  shows "decimalValue [hexDigit a, CHR ''.'', hexDigit d2, hexDigit d1, hexDigit d0]
         = real (1000 * a + (100 * d2 + 10 * d1 + d0)) / 1000"
  unfolding decimalValue_def digitsValue_def Let_def
  by (simp add: decDigit_props assms)

lemma toFixed3_unit:
  assumes "0 \<le> x" "x \<le> 1"
  shows "decimalValue (toFixed 3 x) = real (toFixed_n 3 x) / 1000"
proof -
  define n where "n = toFixed_n 3 x"
  have n: "n < 10000" using toFixed_n_unit [OF assms] by (simp add: n_def)
  have d: "n div 1000 < 10" "n div 100 mod 10 < 10" "n div 10 mod 10 < 10" "n mod 10 < 10"
    using n by simp_all
  show ?thesis
    unfolding n_def [symmetric] toFixed3_text [OF assms(1) n_def n]
      decimalValue_digits [OF d] digits_four ..
qed


lemma validHex6_channels:
  assumes "validHex6 hx"
  obtains R G B :: nat where
    "hexToRgb hx = Some \<lparr>r = real R, g = real G, b = real B\<rparr>"
    "parseInt16 (take 2 (remove1 (CHR ''#'') hx)) = Some (int R)"
    "parseInt16 (take 2 (drop 2 (remove1 (CHR ''#'') hx))) = Some (int G)"
    "parseInt16 (take 2 (drop 4 (remove1 (CHR ''#'') hx))) = Some (int B)"
    "R < 256" "G < 256" "B < 256"
proof -
  from assms obtain x0 x1 x2 x3 x4 x5 where
    hx: "hx = [x0, x1, x2, x3, x4, x5] \<or> hx = CHR ''#'' # [x0, x1, x2, x3, x4, x5]" and
    dg: "list_all isHexDigit [x0, x1, x2, x3, x4, x5]"
    by (rule validHex6_cases)
  from dg have d: "isHexDigit x0" "isHexDigit x1" "isHexDigit x2" "isHexDigit x3"
    "isHexDigit x4" "isHexDigit x5" by simp_all
  define R G B where "R = 16 * hexDigitVal x0 + hexDigitVal x1"
    and "G = 16 * hexDigitVal x2 + hexDigitVal x3"
    and "B = 16 * hexDigitVal x4 + hexDigitVal x5"
  have nh: "x0 \<noteq> CHR ''#''" "x1 \<noteq> CHR ''#''" "x2 \<noteq> CHR ''#''" "x3 \<noteq> CHR ''#''"
    "x4 \<noteq> CHR ''#''" "x5 \<noteq> CHR ''#''"
    using d by (simp_all add: isHexDigit_props)
  have clean: "remove1 (CHR ''#'') hx = [x0, x1, x2, x3, x4, x5]"
    using hx nh by auto
  have pr: "parseInt16 [x0, x1] = Some (int R)" "parseInt16 [x2, x3] = Some (int G)"
    "parseInt16 [x4, x5] = Some (int B)"
    by (simp_all only: parseInt16_hex_pair d R_def G_def B_def)
  have "hexToRgb hx = hexToRgb (CHR ''#'' # [x0, x1, x2, x3, x4, x5])"
    using hx nh by (auto simp: hexToRgb_def)
  also have "\<dots> = Some \<lparr>r = real R, g = real G, b = real B\<rparr>"
    using dg by (simp add: hexToRgb_def Let_def pr)
  finally have p: "hexToRgb hx = Some \<lparr>r = real R, g = real G, b = real B\<rparr>" .
  have lt: "R < 256" "G < 256" "B < 256"
    using isHexDigit_props(7) [OF d(1)] isHexDigit_props(7) [OF d(2)]
      isHexDigit_props(7) [OF d(3)] isHexDigit_props(7) [OF d(4)]
      isHexDigit_props(7) [OF d(5)] isHexDigit_props(7) [OF d(6)]
    by (simp_all add: R_def G_def B_def)
  show thesis
    using that [OF p] pr lt unfolding clean by simp
qed

lemma swift_rounding:
  assumes "c \<le> 255"
  shows "\<bar>decimalValue (toFixed 3 (real c / 255)) - real c / 255\<bar> \<le> 1 / 2000"
    and "real_of_int (Math_round (255 * decimalValue (toFixed 3 (real c / 255)))) = real c"
proof -
  define x where "x = real c / 255"
  define k where "k = \<lfloor>x * 1000 + 1 / 2\<rfloor>"
  have x: "0 \<le> x" "x \<le> 1" using assms by (simp_all add: x_def)
  have k0: "0 \<le> k" using x unfolding k_def by simp
  have n: "real (toFixed_n 3 x) = real_of_int k"
    using x k0 by (simp add: toFixed_n_def k_def)
  have dv: "decimalValue (toFixed 3 x) = real_of_int k / 1000"
    using toFixed3_unit [OF x] n by simp
  have lo: "real_of_int k \<le> x * 1000 + 1 / 2" and hi: "x * 1000 + 1 / 2 < real_of_int k + 1"
    unfolding k_def by linarith+
  show "\<bar>decimalValue (toFixed 3 (real c / 255)) - real c / 255\<bar> \<le> 1 / 2000"
    unfolding x_def [symmetric] dv using lo hi by linarith
  have cx: "real c = 255 * x" by (simp add: x_def)
  have "\<lfloor>255 * (real_of_int k / 1000) + 1 / 2\<rfloor> = int c"
  proof (rule floor_unique)
    show "real_of_int (int c) \<le> 255 * (real_of_int k / 1000) + 1 / 2"
      using hi by (simp add: cx field_simps)
    show "255 * (real_of_int k / 1000) + 1 / 2 < real_of_int (int c) + 1"
      using lo by (simp add: cx field_simps)
  qed
  then show "real_of_int (Math_round (255 * decimalValue (toFixed 3 (real c / 255)))) = real c"
    unfolding x_def [symmetric] dv Math_round_def by simp
qed


text \<open>
  Claim C8, amended. For a colour whose hex is a valid hex colour of six digits, the Swift
  exporter prints each channel parsed from the hex, over 255, with three decimals. The
  printed numeral is within 0.0005 of \<open>channel / 255\<close>, and the channel is found again
  from it exactly, as \<open>255\<close> times the numeral rounded to the nearest integer: the
  exporters agree on the channel values of the hex text, not on the exact quotient.
\<close>

theorem exportAsSwift_channels:
  assumes "validHex6 (hex color)" "hexToRgb (hex color) = Some rgb"
  shows "exportAsSwift_line color
         = ''        static let '' @ exportAsSwift_propertyName (name color)
           @ '' = UIColor(red: '' @ toFixed 3 (r rgb / 255)
           @ '', green: '' @ toFixed 3 (g rgb / 255)
           @ '', blue: '' @ toFixed 3 (b rgb / 255) @ '', alpha: 1.0)''
         \<and> (\<forall>c \<in> {r rgb, g rgb, b rgb}.
               \<bar>decimalValue (toFixed 3 (c / 255)) - c / 255\<bar> \<le> 1 / 2000
               \<and> real_of_int (Math_round (255 * decimalValue (toFixed 3 (c / 255)))) = c)"
proof -
  from assms(1) obtain R G B :: nat where
    p: "hexToRgb (hex color) = Some \<lparr>r = real R, g = real G, b = real B\<rparr>" and
    pr: "parseInt16 (take 2 (remove1 (CHR ''#'') (hex color))) = Some (int R)"
      "parseInt16 (take 2 (drop 2 (remove1 (CHR ''#'') (hex color)))) = Some (int G)"
      "parseInt16 (take 2 (drop 4 (remove1 (CHR ''#'') (hex color)))) = Some (int B)" and
    lt: "R < 256" "G < 256" "B < 256"
    by (rule validHex6_channels)
  from p assms(2) have rgb: "r rgb = real R" "g rgb = real G" "b rgb = real B" by auto
  have le: "R \<le> 255" "G \<le> 255" "B \<le> 255" using lt by simp_all
  have line: "exportAsSwift_line color
         = ''        static let '' @ exportAsSwift_propertyName (name color)
           @ '' = UIColor(red: '' @ toFixed 3 (r rgb / 255)
           @ '', green: '' @ toFixed 3 (g rgb / 255)
           @ '', blue: '' @ toFixed 3 (b rgb / 255) @ '', alpha: 1.0)''"
    unfolding exportAsSwift_line_def Let_def pr swiftComponent_def rgb by simp
  show ?thesis
    using line swift_rounding [OF le(1)] swift_rounding [OF le(2)] swift_rounding [OF le(3)]
    unfolding rgb by simp
qed

lemma toFixed3_one_255: "toFixed 3 (1 / 255) = ''0.004''"
proof -
  have "\<lfloor>(1 / 255 :: real) * 1000 + 1 / 2\<rfloor> = 4" by (rule floor_unique) simp_all
  then have n: "toFixed_n 3 (1 / 255) = 4" by (simp add: toFixed_n_def)
  have "toFixed 3 (1 / 255) = [hexDigit (4 div 1000), CHR ''.'', hexDigit (4 div 100 mod 10),
                         hexDigit (4 div 10 mod 10), hexDigit (4 mod 10)]"
    by (rule toFixed3_text) (simp_all add: n)
  then show ?thesis by (simp add: hexDigit_def)
qed

lemma decimalValue_0004: "decimalValue ''0.004'' = 4 / 1000"
  by (simp add: decimalValue_def digitsValue_def)

lemma hexToRgb_010101: "hexToRgb ''#010101'' = Some \<lparr>r = 1, g = 1, b = 1\<rparr>"
  using hexToRgb_digits [of 1 1 1] by (simp add: twoDigitHex_def hexDigit_def)

lemma validHex6_010101: "validHex6 ''#010101''"
  by (simp add: validHex6_def isValidHex_def isHexDigit_def isDigit_def)

lemma swift_name_a: "exportAsSwift_propertyName ''a'' = ''a''"
  by (simp add: exportAsSwift_propertyName_def lowerFirst_def isAlnum_def isLower_def
      isLineTerminator_def toLowerChar_def isUpper_def)

text \<open>
  Claim C8, as stated: every channel numeral of the Swift exporter denotes exactly
  \<open>channel / 255\<close>. It does not: \<open>toFixed(3)\<close> keeps three decimals, and the channel 1 is
  printed \<open>0.004\<close>.
\<close>

theorem exportAsSwift_precision_counterexample:
  "hexToRgb ''#010101'' = Some \<lparr>r = 1, g = 1, b = 1\<rparr>
   \<and> exportAsSwift_line \<lparr>id' = ''c1'', name = ''a'', hex = ''#010101''\<rparr>
       = ''        static let a = UIColor(red: 0.004, green: 0.004, blue: 0.004, alpha: 1.0)''
   \<and> decimalValue ''0.004'' \<noteq> 1 / 255"
proof -
  have pr: "parseInt16 ''01'' = Some 1"
    by (simp add: parseInt16_def isWhiteSpace_def isHexDigit_def isDigit_def hexDigitVal_def)
  have "exportAsSwift_line \<lparr>id' = ''c1'', name = ''a'', hex = ''#010101''\<rparr>
       = ''        static let a = UIColor(red: 0.004, green: 0.004, blue: 0.004, alpha: 1.0)''"
    by (simp add: exportAsSwift_line_def pr swiftComponent_def toFixed3_one_255 swift_name_a)
  then show ?thesis
    by (simp add: hexToRgb_010101 decimalValue_0004)
qed

theorem exportAsSwift_channels_witness:
  "validHex6 ''#010101''
   \<and> hexToRgb ''#010101'' = Some \<lparr>r = 1, g = 1, b = 1\<rparr>
   \<and> exportAsSwift_line \<lparr>id' = ''c1'', name = ''a'', hex = ''#010101''\<rparr>
       = ''        static let a = UIColor(red: 0.004, green: 0.004, blue: 0.004, alpha: 1.0)''
   \<and> \<bar>decimalValue ''0.004'' - 1 / 255\<bar> \<le> 1 / 2000
   \<and> Math_round (255 * decimalValue ''0.004'') = 1"
proof -
  have v: "validHex6 (hex \<lparr>id' = ''c1'', name = ''a'', hex = ''#010101''\<rparr>)"
    by (simp add: validHex6_010101)
  have p: "hexToRgb (hex \<lparr>id' = ''c1'', name = ''a'', hex = ''#010101''\<rparr>)
           = Some \<lparr>r = 1, g = 1, b = 1\<rparr>"
    by (simp add: hexToRgb_010101)
  show ?thesis
    using exportAsSwift_channels [OF v p] validHex6_010101 hexToRgb_010101
    by (simp add: toFixed3_one_255 swift_name_a)
qed

section \<open>The export keys\<close>

lemma lt26_cases:
  "k < 26 \<Longrightarrow> k \<in> {0, 1, 2, 3, 4, 5, 6, 7, 8, 9, 10, 11, 12, 13, 14, 15, 16, 17, 18, 19, 20,
                        21, 22, 23, 24, 25 :: nat}"
  by simp arith

lemma letter_tables:
  assumes "k < 26"
  shows "(of_char (''abcdefghijklmnopqrstuvwxyz'' ! k) :: nat) = k + 97"
    and "(of_char (''ABCDEFGHIJKLMNOPQRSTUVWXYZ'' ! k) :: nat) = k + 65"
  using lt26_cases [OF assms]
  by (elim insertE emptyE; simp)+

lemma of_char_toLowerChar:
  "(of_char (toLowerChar c) :: nat) = (if isUpper c then of_char c + 32 else of_char c)"
proof (cases "isUpper c")
  case True
  then have k: "(of_char c :: nat) - 65 < 26" by (auto simp: isUpper_def)
  show ?thesis using True letter_tables(1) [OF k] by (auto simp: toLowerChar_def isUpper_def)
next
  case False
  then show ?thesis by (simp add: toLowerChar_def)
qed

lemma of_char_toUpperChar:
  "(of_char (toUpperChar c) :: nat) = (if isLower c then of_char c - 32 else of_char c)"
proof (cases "isLower c")
  case True
  then have k: "(of_char c :: nat) - 97 < 26" by (auto simp: isLower_def)
  show ?thesis using True letter_tables(2) [OF k] by (auto simp: toUpperChar_def isLower_def)
next
  case False
  then show ?thesis by (simp add: toUpperChar_def)
qed

lemma isLowerAlnum_toLowerChar: "isLowerAlnum (toLowerChar c) = isAlnum c"
  by (auto simp: isLowerAlnum_def isAlnum_def isLower_def isUpper_def isDigit_def
      of_char_toLowerChar)

lemma isAlnum_toUpperChar: "isAlnum (toUpperChar c) = isAlnum c"
  by (auto simp: isAlnum_def isLower_def isUpper_def isDigit_def of_char_toUpperChar)

lemma toLowerChar_toUpperChar: "toLowerChar (toUpperChar c) = toLowerChar c"
proof -
  have "(of_char (toLowerChar (toUpperChar c)) :: nat) = of_char (toLowerChar c)"
    by (auto simp: of_char_toLowerChar of_char_toUpperChar isLower_def isUpper_def)
  then show ?thesis by (simp only: of_char_eq_iff)
qed

lemma toUpperChar_nonAlnum: "\<not> isAlnum c \<Longrightarrow> toUpperChar c = c"
  by (simp add: toUpperChar_def isAlnum_def)

lemma isAlnum_not_LT: "isAlnum c \<Longrightarrow> \<not> isLineTerminator c"
  by (auto simp: isAlnum_def isLower_def isUpper_def isDigit_def isLineTerminator_def)

lemma nameWords_dropWhile: "nameWords (dropWhile (\<lambda>x. \<not> isAlnum x) xs) = nameWords xs"
  by (induction xs) simp_all

lemma nameWords_props:
  "w \<in> set (nameWords xs) \<Longrightarrow> w \<noteq> [] \<and> list_all isAlnum w"
proof (induction xs arbitrary: w rule: nameWords.induct)
  case 1
  then show ?case by simp
next
  case (2 c cs)
  show ?case
  proof (cases "isAlnum c")
    case True
    have tw: "list_all isAlnum (takeWhile isAlnum cs)"
      unfolding list_all_iff using set_takeWhileD [of _ isAlnum cs] by blast
    from "2.prems" True
    consider "w = c # takeWhile isAlnum cs" | "w \<in> set (nameWords (dropWhile isAlnum cs))"
      by auto
    then show ?thesis
    proof cases
      case 1
      then show ?thesis using True tw by simp
    next
      case 2
      then show ?thesis by (rule "2.IH"(1) [OF True])
    qed
  next
    case False
    with "2.prems" have "w \<in> set (nameWords cs)" by simp
    then show ?thesis by (rule "2.IH"(2) [OF False])
  qed
qed

lemma replaceRuns_word:
  "replaceRuns sep (toLowerCase cs)
   = toLowerCase (takeWhile isAlnum cs) @ replaceRuns sep (toLowerCase (dropWhile isAlnum cs))"
  by (induction cs) (simp_all add: toLowerCase_def isLowerAlnum_toLowerChar)

lemma dropWhile_toLowerCase:
  "dropWhile (\<lambda>x. \<not> isLowerAlnum x) (toLowerCase cs)
   = toLowerCase (dropWhile (\<lambda>x. \<not> isAlnum x) cs)"
  by (induction cs) (simp_all add: toLowerCase_def isLowerAlnum_toLowerChar)

lemma replaceRuns_gap:
  assumes "\<not> isAlnum c"
  shows "replaceRuns sep (toLowerCase (c # cs))
         = sep # replaceRuns sep (toLowerCase (dropWhile (\<lambda>x. \<not> isAlnum x) cs))"
proof -
  have "toLowerCase (c # cs) = toLowerChar c # toLowerCase cs" by (simp add: toLowerCase_def)
  then show ?thesis
    using assms by (simp add: isLowerAlnum_toLowerChar dropWhile_toLowerCase)
qed

lemma dropWhile_hd: "dropWhile P xs = [] \<or> \<not> P (hd (dropWhile P xs))"
  by (induction xs) simp_all

lemma replaceRuns_words:
  "xs = [] \<or> isAlnum (hd xs) \<Longrightarrow>
   replaceRuns sep (toLowerCase xs)
   = join [sep] (map toLowerCase (nameWords xs)) @ (if endsInGap xs then [sep] else [])"
proof (induction "length xs" arbitrary: xs rule: less_induct)
  case less
  show ?case
  proof (cases xs)
    case Nil
    then show ?thesis by (simp add: toLowerCase_def endsInGap_def)
  next
    case (Cons c cs)
    with less.prems have c: "isAlnum c" by simp
    define w where "w = c # takeWhile isAlnum cs"
    define rest where "rest = dropWhile isAlnum cs"
    have xs: "xs = w @ rest" by (simp add: Cons w_def rest_def)
    have nw: "nameWords xs = w # nameWords rest" using c by (simp add: Cons w_def rest_def)
    have rr: "replaceRuns sep (toLowerCase xs)
              = toLowerCase w @ replaceRuns sep (toLowerCase rest)"
      using replaceRuns_word [of sep xs] c by (simp add: Cons w_def rest_def)
    have wl: "isAlnum (last w)"
      using c by (auto simp: w_def dest: set_takeWhileD last_in_set)
    show ?thesis
    proof (cases rest)
      case Nil
      have g: "\<not> endsInGap xs" using wl by (simp add: endsInGap_def xs Nil)
      have "replaceRuns sep (toLowerCase rest) = []" "nameWords rest = []"
        by (simp_all add: Nil toLowerCase_def)
      then show ?thesis unfolding rr nw using g by simp
    next
      case (Cons d ds)
      have d: "\<not> isAlnum d"
        using dropWhile_hd [of isAlnum cs] by (simp add: rest_def [symmetric] Cons)
      define rest' where "rest' = dropWhile (\<lambda>x. \<not> isAlnum x) ds"
      have gap: "replaceRuns sep (toLowerCase rest) = sep # replaceRuns sep (toLowerCase rest')"
        unfolding Cons rest'_def by (rule replaceRuns_gap [OF d])
      have nr: "nameWords rest = nameWords rest'"
        using d by (simp add: Cons rest'_def nameWords_dropWhile)
      have len: "length rest' < length xs"
        using length_dropWhile_le [of "\<lambda>x. \<not> isAlnum x" ds]
        by (simp add: xs Cons rest'_def w_def)
      have st: "rest' = [] \<or> isAlnum (hd rest')"
        using dropWhile_hd [of "\<lambda>x. \<not> isAlnum x" ds] by (simp add: rest'_def)
      note IH = less.hyps [OF len st]
      have xs2: "xs = (w @ d # takeWhile (\<lambda>x. \<not> isAlnum x) ds) @ rest'"
        by (simp add: xs \<open>rest = d # ds\<close> rest'_def)
      have xne: "xs \<noteq> []" by (simp add: xs w_def)
      show ?thesis
      proof (cases rest')
        case Nil
        have "\<forall>x\<in>set ds. \<not> isAlnum x"
          using Nil unfolding rest'_def by (simp add: dropWhile_eq_Nil_conv)
        then have "\<not> isAlnum (last (d # ds))" using d by (cases ds) auto
        then have g: "endsInGap xs"
          unfolding endsInGap_def xs \<open>rest = d # ds\<close> by (simp add: w_def)
        have "replaceRuns sep (toLowerCase rest') = []" "nameWords rest' = []"
          by (simp_all add: Nil toLowerCase_def)
        then show ?thesis unfolding rr nw gap nr using g by simp
      next
        case (Cons e es)
        then have ne: "nameWords rest' \<noteq> []" using st by auto
        then obtain v vs where nv: "nameWords rest' = v # vs" by (cases "nameWords rest'") auto
        have rne: "rest' \<noteq> []" by (simp add: Cons)
        have lx: "last xs = last rest'"
          by (subst xs2) (rule last_appendR [OF rne])
        have g: "endsInGap xs = endsInGap rest'"
          unfolding endsInGap_def lx using xne rne by simp
        show ?thesis unfolding rr nw gap nr IH g nv by simp
      qed
    qed
  qed
qed

lemma join_ends:
  assumes "\<forall>w\<in>set ws. w \<noteq> [] \<and> sep \<notin> set w" "ws \<noteq> []"
  shows "join [sep] ws \<noteq> [] \<and> hd (join [sep] ws) \<noteq> sep \<and> last (join [sep] ws) \<noteq> sep"
  using assms
proof (induction ws)
  case Nil
  then show ?case by simp
next
  case (Cons x ws)
  have x: "x \<noteq> []" "sep \<notin> set x" using Cons.prems(1) by simp_all
  have "hd x \<in> set x" "last x \<in> set x" using x(1) by simp_all
  with x(2) have hx: "hd x \<noteq> sep" "last x \<noteq> sep" by blast+
  show ?case
  proof (cases ws)
    case Nil
    then show ?thesis using x(1) hx by simp
  next
    case ys: (Cons y ys)
    have "\<forall>w\<in>set ws. w \<noteq> [] \<and> sep \<notin> set w" using Cons.prems(1) by simp
    moreover have "ws \<noteq> []" by (simp add: ys)
    ultimately have ih: "join [sep] ws \<noteq> []" "last (join [sep] ws) \<noteq> sep"
      using Cons.IH by blast+
    have j: "join [sep] (x # ws) = x @ [sep] @ join [sep] ws" by (simp add: ys)
    show ?thesis unfolding j using x(1) hx(1) ih by simp
  qed
qed

lemma stripEnds_core:
  assumes "J \<noteq> []" "hd J \<noteq> sep" "last J \<noteq> sep"
  shows "stripEnds sep (J @ (if e then [sep] else [])) = J"
    and "stripEnds sep (sep # J @ (if e then [sep] else [])) = J"
proof -
  from assms(1) obtain c t where J: "J = c # t" by (cases J) auto
  have c: "c \<noteq> sep" using assms(2) by (simp add: J)
  have s: "(case J @ (if e then [sep] else []) of [] \<Rightarrow> []
            | a # u \<Rightarrow> if a = sep then u else J @ (if e then [sep] else []))
           = J @ (if e then [sep] else [])"
    using c by (simp add: J)
  have b: "(if J @ (if e then [sep] else []) \<noteq> [] \<and> last (J @ (if e then [sep] else [])) = sep
            then butlast (J @ (if e then [sep] else [])) else J @ (if e then [sep] else [])) = J"
    using assms(1,3) by (cases e) (simp_all add: butlast_append)
  show "stripEnds sep (J @ (if e then [sep] else [])) = J"
    unfolding stripEnds_def Let_def s by (rule b)
  show "stripEnds sep (sep # J @ (if e then [sep] else [])) = J"
    unfolding stripEnds_def Let_def list.case if_P [OF refl] by (rule b)
qed

lemma stripEnds_trivial: "stripEnds sep [] = []" "stripEnds sep [sep] = []"
  by (simp_all add: stripEnds_def)

lemma lowered_words:
  assumes "\<not> isLowerAlnum sep"
  shows "\<forall>w\<in>set (map toLowerCase (nameWords xs)). w \<noteq> [] \<and> sep \<notin> set w"
proof
  fix w assume "w \<in> set (map toLowerCase (nameWords xs))"
  then obtain v where v: "v \<in> set (nameWords xs)" and w: "w = toLowerCase v" by auto
  from nameWords_props [OF v] have ne: "v \<noteq> []" and al: "list_all isAlnum v" by simp_all
  have "sep \<notin> set w"
  proof
    assume "sep \<in> set w"
    then obtain x where "x \<in> set v" "sep = toLowerChar x" by (auto simp: w toLowerCase_def)
    then have "isLowerAlnum sep" using al by (simp add: list_all_iff isLowerAlnum_toLowerChar)
    with assms show False by simp
  qed
  then show "w \<noteq> [] \<and> sep \<notin> set w" using ne by (simp add: w toLowerCase_def)
qed

lemma nameWords_Nil_start: "xs = [] \<or> isAlnum (hd xs) \<Longrightarrow> nameWords xs = [] \<Longrightarrow> xs = []"
  by (cases xs) (auto split: if_splits)

lemma key_from_words_start:
  assumes "\<not> isLowerAlnum sep" "xs = [] \<or> isAlnum (hd xs)"
  shows "stripEnds sep (replaceRuns sep (toLowerCase xs))
         = join [sep] (map toLowerCase (nameWords xs))"
    and "stripEnds sep (sep # replaceRuns sep (toLowerCase xs))
         = join [sep] (map toLowerCase (nameWords xs))"
proof -
  define J where "J = join [sep] (map toLowerCase (nameWords xs))"
  have rr: "replaceRuns sep (toLowerCase xs) = J @ (if endsInGap xs then [sep] else [])"
    unfolding J_def by (rule replaceRuns_words [OF assms(2)])
  show "stripEnds sep (replaceRuns sep (toLowerCase xs))
         = join [sep] (map toLowerCase (nameWords xs))"
    and "stripEnds sep (sep # replaceRuns sep (toLowerCase xs))
         = join [sep] (map toLowerCase (nameWords xs))"
  proof (atomize (full), cases "nameWords xs = []")
    case True
    then have "xs = []" using assms(2) by (rule nameWords_Nil_start [rotated])
    then show "stripEnds sep (replaceRuns sep (toLowerCase xs))
         = join [sep] (map toLowerCase (nameWords xs)) \<and>
       stripEnds sep (sep # replaceRuns sep (toLowerCase xs))
         = join [sep] (map toLowerCase (nameWords xs))"
      by (simp add: toLowerCase_def stripEnds_trivial)
  next
    case False
    then have "map toLowerCase (nameWords xs) \<noteq> []" by simp
    from join_ends [OF lowered_words [OF assms(1)] this]
    have j: "J \<noteq> []" "hd J \<noteq> sep" "last J \<noteq> sep" by (simp_all add: J_def)
    show "stripEnds sep (replaceRuns sep (toLowerCase xs))
         = join [sep] (map toLowerCase (nameWords xs)) \<and>
       stripEnds sep (sep # replaceRuns sep (toLowerCase xs))
         = join [sep] (map toLowerCase (nameWords xs))"
      unfolding rr J_def [symmetric] using stripEnds_core [OF j] by simp
  qed
qed

lemma key_from_words:
  assumes "\<not> isLowerAlnum sep"
  shows "stripEnds sep (replaceRuns sep (toLowerCase xs))
         = join [sep] (map toLowerCase (nameWords xs))"
proof (cases "xs = [] \<or> isAlnum (hd xs)")
  case True
  then show ?thesis by (rule key_from_words_start(1) [OF assms])
next
  case False
  then obtain c cs where xs: "xs = c # cs" and c: "\<not> isAlnum c" by (cases xs) auto
  define rest where "rest = dropWhile (\<lambda>x. \<not> isAlnum x) cs"
  have st: "rest = [] \<or> isAlnum (hd rest)"
    using dropWhile_hd [of "\<lambda>x. \<not> isAlnum x" cs] by (simp add: rest_def)
  have nw: "nameWords xs = nameWords rest"
    using c by (simp add: xs rest_def nameWords_dropWhile)
  have "replaceRuns sep (toLowerCase xs) = sep # replaceRuns sep (toLowerCase rest)"
    unfolding xs rest_def by (rule replaceRuns_gap [OF c])
  then show ?thesis
    unfolding nw by (simp only: key_from_words_start(2) [OF assms st])
qed

lemma separators: "\<not> isLowerAlnum (CHR ''-'')" "\<not> isLowerAlnum (CHR ''_'')"
  by (simp_all add: isLowerAlnum_def isLower_def isDigit_def)

lemma camel_word:
  "filter isAlnum (camelReplace cs)
   = takeWhile isAlnum cs @ filter isAlnum (camelReplace (dropWhile isAlnum cs))"
proof (induction cs)
  case Nil
  then show ?case by simp
next
  case (Cons d ds)
  show ?case
  proof (cases "isAlnum d")
    case True
    then show ?thesis using Cons by simp
  next
    case False
    then show ?thesis by simp
  qed
qed

lemma trailingRun_filter:
  assumes "\<forall>x\<in>set xs. \<not> isAlnum x"
  shows "filter isAlnum (trailingRun xs) = []"
proof -
  define ys where "ys = rev (dropWhile isLineTerminator (rev (tl xs)))"
  have sub: "set ys \<subseteq> set xs"
  proof
    fix x assume "x \<in> set ys"
    then have "x \<in> set (dropWhile isLineTerminator (rev (tl xs)))" by (simp add: ys_def)
    then have "x \<in> set (rev (tl xs))" by (rule set_dropWhileD)
    then have "x \<in> set (tl xs)" by simp
    then show "x \<in> set xs" by (cases xs) simp_all
  qed
  show ?thesis
  proof (cases "ys = []")
    case True
    then have "trailingRun xs = xs" by (simp add: trailingRun_def ys_def [symmetric])
    then show ?thesis using assms by (simp add: filter_empty_conv)
  next
    case False
    then have t: "trailingRun xs = toUpperChar (last ys) # drop (length ys + 1) xs"
      by (simp add: trailingRun_def ys_def [symmetric])
    have "last ys \<in> set xs" using False sub last_in_set [of ys] by blast
    then have l: "\<not> isAlnum (toUpperChar (last ys))"
      using assms by (simp add: isAlnum_toUpperChar)
    have "\<forall>x\<in>set (drop (length ys + 1) xs). \<not> isAlnum x"
      using assms in_set_dropD [of _ "length ys + 1" xs] by blast
    then show ?thesis
      unfolding t using l by (simp add: filter_empty_conv)
  qed
qed

lemma camelReplace_gap:
  assumes "\<not> isAlnum c" "\<not> isAlnum d"
  shows "filter isAlnum (camelReplace (c # d # ds)) = filter isAlnum (camelReplace (d # ds))"
proof (cases "dropWhile (\<lambda>x. \<not> isAlnum x) ds")
  case Nil
  then have a: "\<forall>x\<in>set ds. \<not> isAlnum x" by (simp add: dropWhile_eq_Nil_conv)
  have "camelReplace (c # d # ds) = trailingRun (c # d # ds)"
    "camelReplace (d # ds) = trailingRun (d # ds)"
    using assms by (simp_all add: Nil del: dropWhile_eq_Nil_conv)
  moreover have "filter isAlnum (trailingRun (c # d # ds)) = []"
    by (rule trailingRun_filter) (simp add: assms a)
  moreover have "filter isAlnum (trailingRun (d # ds)) = []"
    by (rule trailingRun_filter) (simp add: assms a)
  ultimately show ?thesis by simp
next
  case (Cons e es)
  then show ?thesis using assms by (simp del: dropWhile_eq_Nil_conv)
qed

lemma camel_words:
  "filter isAlnum (camelReplace xs)
   = (if xs \<noteq> [] \<and> isAlnum (hd xs)
      then (case nameWords xs of [] \<Rightarrow> [] | w # ws \<Rightarrow> w @ concat (map capitalize ws))
      else concat (map capitalize (nameWords xs)))"
proof (induction xs rule: nameWords.induct)
  case 1
  then show ?case by simp
next
  case (2 c cs)
  show ?case
  proof (cases "isAlnum c")
    case True
    define rest where "rest = dropWhile isAlnum cs"
    have st: "\<not> (rest \<noteq> [] \<and> isAlnum (hd rest))"
      using dropWhile_hd [of isAlnum cs] by (auto simp: rest_def)
    have ih: "filter isAlnum (camelReplace rest) = concat (map capitalize (nameWords rest))"
      using "2.IH"(1) [OF True] st unfolding rest_def [symmetric] by simp
    have "filter isAlnum (camelReplace (c # cs)) = c # filter isAlnum (camelReplace cs)"
      using True by simp
    also have "\<dots> = c # takeWhile isAlnum cs @ filter isAlnum (camelReplace rest)"
      unfolding rest_def by (subst camel_word) simp
    finally show ?thesis
      using True by (simp add: ih [unfolded rest_def] rest_def)
  next
    case False
    note ih = "2.IH"(2) [OF False]
    have goal: "filter isAlnum (camelReplace (c # cs)) = concat (map capitalize (nameWords cs))"
    proof (cases cs)
      case Nil
      have "filter isAlnum (trailingRun [c]) = []"
        by (rule trailingRun_filter) (simp add: False)
      then show ?thesis using False by (simp add: Nil)
    next
      case (Cons d ds)
      show ?thesis
      proof (cases "isAlnum d")
        case True
        define tw where "tw = takeWhile isAlnum ds"
        define rest where "rest = dropWhile isAlnum ds"
        have nw: "nameWords cs = (d # tw) # nameWords rest"
          using True by (simp add: Cons tw_def rest_def)
        have "d # filter isAlnum (camelReplace ds)
              = (d # tw) @ concat (map capitalize (nameWords rest))"
          using ih True unfolding nw by (simp add: Cons)
        then have f: "filter isAlnum (camelReplace ds)
              = tw @ concat (map capitalize (nameWords rest))" by simp
        have "filter isAlnum (camelReplace (c # cs))
              = toUpperChar d # filter isAlnum (camelReplace ds)"
          using False True by (simp add: Cons isAlnum_toUpperChar)
        then show ?thesis unfolding nw f by (simp add: capitalize_def)
      next
        case d: False
        have "filter isAlnum (camelReplace (c # cs)) = filter isAlnum (camelReplace cs)"
          unfolding Cons by (rule camelReplace_gap [OF False d])
        then show ?thesis using ih d by (simp add: Cons)
      qed
    qed
    show ?thesis using False goal by simp
  qed
qed

lemma case_arith:
  fixes x y :: nat
  assumes "(if 65 \<le> x \<and> x \<le> 90 then x + 32 else x) = (if 65 \<le> y \<and> y \<le> 90 then y + 32 else y)"
  shows "(if 97 \<le> x \<and> x \<le> 122 then x - 32 else x) = (if 97 \<le> y \<and> y \<le> 122 then y - 32 else y)"
proof (cases "65 \<le> x \<and> x \<le> 90")
  case True
  note x = this
  show ?thesis
  proof (cases "65 \<le> y \<and> y \<le> 90")
    case True
    with x assms have "x = y" by (auto split: if_splits)
    then show ?thesis by simp
  next
    case False
    with x assms have "y = x + 32" by (auto split: if_splits)
    with x show ?thesis by auto
  qed
next
  case False
  note x = this
  show ?thesis
  proof (cases "65 \<le> y \<and> y \<le> 90")
    case True
    with x assms have "x = y + 32" by (auto split: if_splits)
    with True show ?thesis by auto
  next
    case False
    with x assms have "x = y" by (auto split: if_splits)
    then show ?thesis by simp
  qed
qed

lemma toUpperChar_cong: "toLowerChar a = toLowerChar c \<Longrightarrow> toUpperChar a = toUpperChar c"
proof -
  assume "toLowerChar a = toLowerChar c"
  then have "(of_char (toLowerChar a) :: nat) = of_char (toLowerChar c)" by simp
  then have "(of_char (toUpperChar a) :: nat) = of_char (toUpperChar c)"
    unfolding of_char_toLowerChar of_char_toUpperChar isLower_def isUpper_def
    by (rule case_arith)
  then show ?thesis by (simp only: of_char_eq_iff)
qed

lemma lowerFirst_word:
  assumes "isAlnum a"
  shows "lowerFirst (a # t) = toLowerChar a # t"
    and "lowerFirst (capitalize (a # t) @ u) = toLowerChar a # t @ u"
    and "lowerFirst ((a # t) @ u) = lowerFirst (a # t) @ u"
  using isAlnum_not_LT [OF assms] isAlnum_not_LT [of "toUpperChar a"] assms
  by (simp_all add: lowerFirst_def capitalize_def isAlnum_toUpperChar toLowerChar_toUpperChar)

lemma word_cases:
  assumes "w \<in> set (nameWords xs)"
  obtains a t where "w = a # t" "isAlnum a"
  using nameWords_props [OF assms] by (cases w) auto

lemma swift_name_words: "exportAsSwift_propertyName xs = camelCase (nameWords xs)"
proof (cases "nameWords xs")
  case Nil
  then have "filter isAlnum (camelReplace xs) = []"
    by (simp add: camel_words)
  then show ?thesis by (simp add: exportAsSwift_propertyName_def Nil camelCase_def lowerFirst_def)
next
  case (Cons w ws)
  then have "w \<in> set (nameWords xs)" by simp
  then obtain a t where w: "w = a # t" and a: "isAlnum a" by (rule word_cases)
  have "lowerFirst (filter isAlnum (camelReplace xs))
        = toLowerChar a # t @ concat (map capitalize ws)"
  proof (cases "xs \<noteq> [] \<and> isAlnum (hd xs)")
    case True
    have "filter isAlnum (camelReplace xs)
          = (case nameWords xs of [] \<Rightarrow> [] | w # ws \<Rightarrow> w @ concat (map capitalize ws))"
      by (subst camel_words) (rule if_P [OF True])
    then have "filter isAlnum (camelReplace xs) = (a # t) @ concat (map capitalize ws)"
      by (simp add: Cons w)
    then show ?thesis using lowerFirst_word(1,3) [OF a] by simp
  next
    case False
    have "filter isAlnum (camelReplace xs) = concat (map capitalize (nameWords xs))"
      by (subst camel_words) (rule if_not_P [OF False])
    then have "filter isAlnum (camelReplace xs) = capitalize (a # t) @ concat (map capitalize ws)"
      by (simp add: Cons w)
    then show ?thesis using lowerFirst_word(2) [OF a] by simp
  qed
  then show ?thesis
    using lowerFirst_word(1) [OF a]
    by (simp add: exportAsSwift_propertyName_def Cons w camelCase_def)
qed

lemma capitalize_cong:
  assumes "w \<in> set (nameWords xs)" "v \<in> set (nameWords ys)" "lowerFirst w = lowerFirst v"
  shows "capitalize w = capitalize v"
proof -
  from assms(1) obtain a t where w: "w = a # t" and a: "isAlnum a" by (rule word_cases)
  from assms(2) obtain c u where v: "v = c # u" and c: "isAlnum c" by (rule word_cases)
  from assms(3) have e: "toLowerChar a = toLowerChar c" "t = u"
    by (simp_all add: w v lowerFirst_word(1) a c)
  have "toUpperChar a = toUpperChar c" using e(1) by (rule toUpperChar_cong)
  then show ?thesis by (simp add: w v capitalize_def e(2))
qed

lemma map_capitalize_cong:
  assumes "set ws \<subseteq> set (nameWords xs)" "set vs \<subseteq> set (nameWords ys)"
    "map lowerFirst ws = map lowerFirst vs"
  shows "map capitalize ws = map capitalize vs"
  using assms
proof (induction ws arbitrary: vs)
  case Nil
  then show ?case by simp
next
  case (Cons w ws)
  from Cons.prems(3) obtain v vs' where vs: "vs = v # vs'" by (cases vs) auto
  have 1: "capitalize w = capitalize v"
    using Cons.prems by (intro capitalize_cong [of w xs v ys]) (auto simp: vs)
  have 2: "map capitalize ws = map capitalize vs'"
    using Cons.prems by (intro Cons.IH) (auto simp: vs)
  show ?case by (simp add: vs 1 2)
qed

lemma swift_names_agree:
  assumes "differOnlyInInitialsOrPunctuation a c"
  shows "exportAsSwift_propertyName a = exportAsSwift_propertyName c"
proof -
  from assms have m: "map lowerFirst (nameWords a) = map lowerFirst (nameWords c)"
    by (simp add: differOnlyInInitialsOrPunctuation_def)
  show ?thesis
  proof (cases "nameWords a")
    case Nil
    with m have "nameWords c = []" by simp
    with Nil show ?thesis by (simp add: swift_name_words)
  next
    case (Cons w ws)
    with m obtain v vs where c: "nameWords c = v # vs" by (cases "nameWords c") auto
    from m have h: "lowerFirst w = lowerFirst v" and t: "map lowerFirst ws = map lowerFirst vs"
      by (simp_all add: Cons c)
    have "map capitalize ws = map capitalize vs"
      by (rule map_capitalize_cong [of ws a vs c]) (auto simp: Cons c t)
    then show ?thesis
      by (simp add: swift_name_words Cons c camelCase_def h)
  qed
qed

lemma lower_keys_agree:
  assumes "differOnlyInCaseOrPunctuation a c" "\<not> isLowerAlnum sep"
  shows "stripEnds sep (replaceRuns sep (toLowerCase a))
         = stripEnds sep (replaceRuns sep (toLowerCase c))"
  using assms(1) unfolding key_from_words [OF assms(2)] differOnlyInCaseOrPunctuation_def
  by simp

text \<open>
  Claim C9, amended. For every pair of colour names written in ASCII that differ only in
  letter case or in punctuation, the six exporters that put the name in lower case (CSS,
  SCSS, Tailwind and design tokens with \<open>-\<close>, JSON and Android XML with \<open>_\<close>) derive the
  same key from both names; the Swift exporter derives the same property name from both
  names when they differ only in punctuation or in the case of the first letter of a
  word.
\<close>

theorem export_keys_agree:
  "(asciiName a \<and> asciiName c \<and> differOnlyInCaseOrPunctuation a c \<longrightarrow>
      exportAsCSS_varName a = exportAsCSS_varName c
      \<and> exportAsSCSS_varName a = exportAsSCSS_varName c
      \<and> exportAsSCSS_key a = exportAsSCSS_key c
      \<and> exportAsTailwind_key a = exportAsTailwind_key c
      \<and> exportAsDesignTokens_key a = exportAsDesignTokens_key c
      \<and> exportAsJSON_key a = exportAsJSON_key c
      \<and> exportAsAndroidXML_name a = exportAsAndroidXML_name c)
   \<and> (asciiName a \<and> asciiName c \<and> differOnlyInInitialsOrPunctuation a c \<longrightarrow>
      exportAsSwift_propertyName a = exportAsSwift_propertyName c)"
proof (intro conjI impI)
  assume "asciiName a \<and> asciiName c \<and> differOnlyInCaseOrPunctuation a c"
  then have d: "differOnlyInCaseOrPunctuation a c" by simp
  note k = lower_keys_agree [OF d separators(1)] lower_keys_agree [OF d separators(2)]
  show "exportAsCSS_varName a = exportAsCSS_varName c"
    unfolding exportAsCSS_varName_def by (rule k(1))
  show "exportAsSCSS_varName a = exportAsSCSS_varName c"
    unfolding exportAsSCSS_varName_def by (rule k(1))
  show "exportAsSCSS_key a = exportAsSCSS_key c"
    unfolding exportAsSCSS_key_def by (rule k(1))
  show "exportAsTailwind_key a = exportAsTailwind_key c"
    unfolding exportAsTailwind_key_def by (rule k(1))
  show "exportAsDesignTokens_key a = exportAsDesignTokens_key c"
    unfolding exportAsDesignTokens_key_def by (rule k(1))
  show "exportAsJSON_key a = exportAsJSON_key c"
    unfolding exportAsJSON_key_def by (rule k(2))
  show "exportAsAndroidXML_name a = exportAsAndroidXML_name c"
    unfolding exportAsAndroidXML_name_def by (rule k(2))
next
  assume "asciiName a \<and> asciiName c \<and> differOnlyInInitialsOrPunctuation a c"
  then have "differOnlyInInitialsOrPunctuation a c" by simp
  then show "exportAsSwift_propertyName a = exportAsSwift_propertyName c"
    by (rule swift_names_agree)
qed

lemmas char_class_defs = isAlnum_def isLower_def isUpper_def isDigit_def isLineTerminator_def

lemma nameWords_AB: "nameWords ''AB'' = [''AB'']" "nameWords ''ab'' = [''ab'']"
  by (simp_all add: char_class_defs)

lemma nameWords_sky:
  "nameWords ''Sky Blue'' = [''Sky'', ''Blue'']" "nameWords ''sky-blue'' = [''sky'', ''blue'']"
  by (simp_all add: char_class_defs)

text \<open>
  Claim C9, as stated: all seven exporters derive the same key from names that differ
  only in letter case. The Swift exporter keeps the case of every letter but the first
  of a word: from the ASCII name \<open>AB\<close> it derives \<open>aB\<close>, from \<open>ab\<close> it derives \<open>ab\<close>.
\<close>

theorem swift_key_case_counterexample:
  "asciiName ''AB'' \<and> asciiName ''ab''
   \<and> differOnlyInCaseOrPunctuation ''AB'' ''ab''
   \<and> exportAsSwift_propertyName ''AB'' = ''aB''
   \<and> exportAsSwift_propertyName ''ab'' = ''ab''
   \<and> exportAsSwift_propertyName ''AB'' \<noteq> exportAsSwift_propertyName ''ab''"
proof -
  have 1: "differOnlyInCaseOrPunctuation ''AB'' ''ab''"
    by (simp add: differOnlyInCaseOrPunctuation_def nameWords_AB char_class_defs toLowerCase_def
        toLowerChar_def isUpper_def)
  have 2: "exportAsSwift_propertyName ''AB'' = ''aB''"
    by (simp add: swift_name_words nameWords_AB char_class_defs camelCase_def lowerFirst_def toLowerChar_def
        isUpper_def isLineTerminator_def)
  have 3: "exportAsSwift_propertyName ''ab'' = ''ab''"
    by (simp add: swift_name_words nameWords_AB char_class_defs camelCase_def lowerFirst_def toLowerChar_def
        isUpper_def isLineTerminator_def)
  show ?thesis using 1 by (simp add: 2 3 asciiName_def)
qed

theorem export_keys_agree_witness:
  "asciiName ''Sky Blue'' \<and> asciiName ''sky-blue''
   \<and> differOnlyInCaseOrPunctuation ''Sky Blue'' ''sky-blue''
   \<and> differOnlyInInitialsOrPunctuation ''Sky Blue'' ''sky-blue''
   \<and> exportAsCSS_varName ''Sky Blue'' = ''sky-blue''
   \<and> exportAsSCSS_varName ''Sky Blue'' = ''sky-blue''
   \<and> exportAsSCSS_key ''Sky Blue'' = ''sky-blue''
   \<and> exportAsTailwind_key ''Sky Blue'' = ''sky-blue''
   \<and> exportAsDesignTokens_key ''Sky Blue'' = ''sky-blue''
   \<and> exportAsJSON_key ''Sky Blue'' = ''sky_blue''
   \<and> exportAsAndroidXML_name ''Sky Blue'' = ''sky_blue''
   \<and> exportAsSwift_propertyName ''Sky Blue'' = ''skyBlue''"
proof -
  have 1: "differOnlyInCaseOrPunctuation ''Sky Blue'' ''sky-blue''"
    by (simp add: differOnlyInCaseOrPunctuation_def nameWords_sky char_class_defs toLowerCase_def
        toLowerChar_def isUpper_def)
  have 2: "differOnlyInInitialsOrPunctuation ''Sky Blue'' ''sky-blue''"
    by (simp add: differOnlyInInitialsOrPunctuation_def nameWords_sky char_class_defs lowerFirst_def
        toLowerChar_def isUpper_def isLineTerminator_def)
  have lw: "toLowerCase ''sky'' = ''sky''" "toLowerCase ''blue'' = ''blue''"
    by (simp_all add: toLowerCase_def toLowerChar_def isUpper_def)
  have k: "stripEnds (CHR ''-'') (replaceRuns (CHR ''-'') (toLowerCase ''sky-blue'')) = ''sky-blue''"
    "stripEnds (CHR ''_'') (replaceRuns (CHR ''_'') (toLowerCase ''sky-blue'')) = ''sky_blue''"
    by (simp_all add: key_from_words separators nameWords_sky char_class_defs lw)
  have s: "exportAsSwift_propertyName ''sky-blue'' = ''skyBlue''"
    by (simp add: swift_name_words nameWords_sky char_class_defs camelCase_def lowerFirst_def capitalize_def
        toLowerChar_def toUpperChar_def isUpper_def isLower_def isLineTerminator_def)
  have 0: "asciiName ''Sky Blue''" "asciiName ''sky-blue''"
    by (simp_all add: asciiName_def)
  show ?thesis
    using 0 1 2 export_keys_agree [of "''Sky Blue''" "''sky-blue''"] s
    by (simp add: exportAsCSS_varName_def exportAsSCSS_varName_def exportAsSCSS_key_def
        exportAsTailwind_key_def exportAsDesignTokens_key_def exportAsJSON_key_def
        exportAsAndroidXML_name_def k)
qed

section \<open>The round trip through HSL\<close>

lemma hue2rgb_unit:
  assumes "0 \<le> t" "t \<le> 1"
  shows "hue2rgb p q t =
     (if t < 1 / 6 then p + (q - p) * 6 * t
      else if t < 1 / 2 then q
      else if t < 2 / 3 then p + (q - p) * (2 / 3 - t) * 6
      else p)"
proof -
  have a: "\<not> t < 0" "\<not> t > 1" using assms by simp_all
  show ?thesis unfolding hue2rgb_def Let_def if_not_P [OF a(1)] if_not_P [OF a(2)] ..
qed

lemma hue2rgb_mid:
  assumes "1 / 6 \<le> t" "t \<le> 1 / 2"
  shows "hue2rgb p q t = q"
proof -
  have u: "0 \<le> t" "t \<le> 1" using assms by simp_all
  have a: "\<not> t < 1 / 6" using assms by simp
  show ?thesis
  proof (cases "t < 1 / 2")
    case True
    show ?thesis unfolding hue2rgb_unit [OF u] if_not_P [OF a] if_P [OF True] ..
  next
    case False
    then have t: "t = 1 / 2" using assms by simp
    have b: "t < 2 / 3" using t by simp
    have "p + (q - p) * (2 / 3 - t) * 6 = q" unfolding t by argo
    then show ?thesis
      unfolding hue2rgb_unit [OF u] if_not_P [OF a] if_not_P [OF False] if_P [OF b] .
  qed
qed

lemma hue2rgb_rise:
  assumes "0 \<le> t" "t \<le> 1 / 6"
  shows "hue2rgb p q t = p + (q - p) * (6 * t)"
proof (cases "t < 1 / 6")
  case True
  have u: "0 \<le> t" "t \<le> 1" using assms by simp_all
  show ?thesis unfolding hue2rgb_unit [OF u] if_P [OF True] by (simp add: algebra_simps)
next
  case False
  then have t: "t = 1 / 6" using assms by simp
  have m: "hue2rgb p q t = q" by (rule hue2rgb_mid) (simp_all add: t)
  show ?thesis unfolding m unfolding t by simp
qed

lemma hue2rgb_fall:
  assumes "1 / 2 \<le> t" "t \<le> 2 / 3"
  shows "hue2rgb p q t = p + (q - p) * (4 - 6 * t)"
proof -
  have u: "0 \<le> t" "t \<le> 1" using assms by simp_all
  have a: "\<not> t < 1 / 6" "\<not> t < 1 / 2" using assms by simp_all
  show ?thesis
  proof (cases "t < 2 / 3")
    case True
    show ?thesis
      unfolding hue2rgb_unit [OF u] if_not_P [OF a(1)] if_not_P [OF a(2)] if_P [OF True]
      by algebra
  next
    case False
    then have t: "t = 2 / 3" using assms by simp
    have "p = p + (q - p) * (4 - 6 * t)" unfolding t by simp
    then show ?thesis
      unfolding hue2rgb_unit [OF u] if_not_P [OF a(1)] if_not_P [OF a(2)] if_not_P [OF False] .
  qed
qed

lemma hue2rgb_low:
  assumes "2 / 3 \<le> t" "t \<le> 1"
  shows "hue2rgb p q t = p"
proof -
  have u: "0 \<le> t" "t \<le> 1" using assms by simp_all
  have a: "\<not> t < 1 / 6" "\<not> t < 1 / 2" "\<not> t < 2 / 3" using assms by simp_all
  show ?thesis
    unfolding hue2rgb_unit [OF u] if_not_P [OF a(1)] if_not_P [OF a(2)] if_not_P [OF a(3)] ..
qed

lemma hue2rgb_wrap_up:
  assumes "t < 0" "- 1 \<le> t"
  shows "hue2rgb p q t = hue2rgb p q (t + 1)"
proof -
  have a: "\<not> t + 1 > 1" "\<not> t + 1 < 0" using assms by simp_all
  show ?thesis
    unfolding hue2rgb_def Let_def if_P [OF assms(1)] if_not_P [OF a(1)] if_not_P [OF a(2)] ..
qed

lemma hue2rgb_wrap_down:
  assumes "1 < t" "t \<le> 2"
  shows "hue2rgb p q t = hue2rgb p q (t - 1)"
proof -
  have a: "\<not> t < 0" "\<not> t - 1 < 0" "\<not> t - 1 > 1" using assms by simp_all
  show ?thesis
    unfolding hue2rgb_def Let_def if_not_P [OF a(1)] if_P [OF assms(1)] if_not_P [OF a(2)]
      if_not_P [OF a(3)] ..
qed

lemma sector_2:
  assumes "- 1 \<le> u" "u \<le> 1" "6 * t = u + 2"
  shows "hue2rgb p q t = q"
  by (rule hue2rgb_mid) (use assms in linarith)+

lemma sector_0:
  assumes "- 1 \<le> u" "u \<le> 1" "6 * t = u"
  shows "hue2rgb p q t = p + (q - p) * max u 0"
proof (cases "0 \<le> u")
  case True
  have "hue2rgb p q t = p + (q - p) * (6 * t)"
    by (rule hue2rgb_rise) (use assms True in linarith)+
  then show ?thesis using True by (simp add: assms(3) max_def)
next
  case False
  have "hue2rgb p q t = hue2rgb p q (t + 1)"
    by (rule hue2rgb_wrap_up) (use assms False in linarith)+
  also have "\<dots> = p"
    by (rule hue2rgb_low) (use assms False in linarith)+
  finally show ?thesis using False by (simp add: max_def)
qed

lemma sector_4:
  assumes "- 1 \<le> u" "u \<le> 1" "6 * t = u + 4"
  shows "hue2rgb p q t = p + (q - p) * max (- u) 0"
proof (cases "u \<le> 0")
  case True
  have "hue2rgb p q t = p + (q - p) * (4 - 6 * t)"
    by (rule hue2rgb_fall) (use assms True in linarith)+
  moreover have "4 - 6 * t = - u" using assms(3) by simp
  ultimately show ?thesis using True by (simp add: max_def)
next
  case False
  have "hue2rgb p q t = p"
    by (rule hue2rgb_low) (use assms False in linarith)+
  then show ?thesis using False by (simp add: max_def)
qed

lemma sector_6:
  assumes "- 1 \<le> u" "u \<le> 1" "6 * t = u + 6"
  shows "hue2rgb p q t = p + (q - p) * max u 0"
proof (cases "u \<le> 0")
  case True
  have "hue2rgb p q t = p"
    by (rule hue2rgb_low) (use assms True in linarith)+
  then show ?thesis using True by (simp add: max_def)
next
  case False
  have "hue2rgb p q t = hue2rgb p q (t - 1)"
    by (rule hue2rgb_wrap_down) (use assms False in linarith)+
  also have "\<dots> = p + (q - p) * (6 * (t - 1))"
    by (rule hue2rgb_rise) (use assms False in linarith)+
  also have "6 * (t - 1) = u" using assms(3) by simp
  finally show ?thesis using False by (simp add: max_def)
qed

lemma sector_8:
  assumes "- 1 \<le> u" "u \<le> 1" "6 * t = u + 8"
  shows "hue2rgb p q t = q"
proof -
  have "hue2rgb p q t = hue2rgb p q (t - 1)"
    by (rule hue2rgb_wrap_down) (use assms in linarith)+
  also have "\<dots> = q"
    by (rule hue2rgb_mid) (use assms in linarith)+
  finally show ?thesis .
qed

lemma sector_m2:
  assumes "- 1 \<le> u" "u \<le> 1" "6 * t = u - 2"
  shows "hue2rgb p q t = p + (q - p) * max (- u) 0"
proof -
  have "hue2rgb p q t = hue2rgb p q (t + 1)"
    by (rule hue2rgb_wrap_up) (use assms in linarith)+
  also have "\<dots> = p + (q - p) * max (- u) 0"
    by (rule sector_4 [OF assms(1,2)]) (use assms(3) in \<open>simp add: algebra_simps\<close>)
  finally show ?thesis .
qed

lemma quotient_facts:
  fixes d x :: real
  assumes "0 < d" "\<bar>x\<bar> \<le> d"
  shows "- 1 \<le> x / d" "x / d \<le> 1" "(d * (x / d)) = x"
    and "0 \<le> x \<Longrightarrow> max (x / d) 0 = x / d" and "0 \<le> x \<Longrightarrow> max (- (x / d)) 0 = 0"
    and "x \<le> 0 \<Longrightarrow> max (x / d) 0 = 0" and "x \<le> 0 \<Longrightarrow> max (- (x / d)) 0 = - (x / d)"
proof -
  show "- 1 \<le> x / d" using assms by (simp add: pos_le_divide_eq)
  show "x / d \<le> 1" using assms by (simp add: pos_divide_le_eq)
  show "d * (x / d) = x" using assms by simp
  show "max (x / d) 0 = x / d" if "0 \<le> x"
  proof (rule max_absorb1)
    show "0 \<le> x / d" using that assms(1) by simp
  qed
  show "max (- (x / d)) 0 = 0" if "0 \<le> x"
  proof (rule max_absorb2)
    show "- (x / d) \<le> 0" using that assms(1) by simp
  qed
  show "max (x / d) 0 = 0" if "x \<le> 0"
  proof (rule max_absorb2)
    show "x / d \<le> 0" using that assms(1) by (simp add: divide_nonpos_pos)
  qed
  show "max (- (x / d)) 0 = - (x / d)" if "x \<le> 0"
  proof (rule max_absorb1)
    show "0 \<le> - (x / d)" using that assms(1) by (simp add: divide_nonpos_pos)
  qed
qed

lemma six_sixth: "6 * (y / 6) = (y::real)"
  by simp

lemma hue_core:
  fixes R G B :: real
  defines "mx \<equiv> max (max R G) B" and "mn \<equiv> min (min R G) B"
  defines "d \<equiv> mx - mn"
  defines "H \<equiv> (if mx = R then ((G - B) / d + (if G < B then 6 else 0)) / 6
                 else if mx = G then ((B - R) / d + 2) / 6
                 else ((R - G) / d + 4) / 6)"
  assumes ne: "mx \<noteq> mn"
  shows "hue2rgb mn mx (H + 1 / 3) = R" and "hue2rgb mn mx H = G"
    and "hue2rgb mn mx (H - 1 / 3) = B"
proof -
  have le: "mn \<le> R" "R \<le> mx" "mn \<le> G" "G \<le> mx" "mn \<le> B" "B \<le> mx"
    unfolding mx_def mn_def by simp_all
  have d: "0 < d" using ne le unfolding d_def by linarith
  have dd: "mx - mn = d" by (simp add: d_def)
  have "hue2rgb mn mx (H + 1 / 3) = R \<and> hue2rgb mn mx H = G \<and> hue2rgb mn mx (H - 1 / 3) = B"
  proof (cases "mx = R")
    case True
    note mxR = this
    have ab: "\<bar>G - B\<bar> \<le> d" using le unfolding d_def by linarith
    note q = quotient_facts [OF d ab]
    show ?thesis
    proof (cases "G < B")
      case False
      then have mnB: "mn = B" unfolding mn_def using le mxR by linarith
      have x: "0 \<le> G - B" using False by simp
      have "H = ((G - B) / d + 0) / 6"
        unfolding H_def if_P [OF mxR] if_not_P [OF False] ..
      then have H6: "6 * H = (G - B) / d" by (simp only: six_sixth add_0_right)
      have 1: "hue2rgb mn mx (H + 1 / 3) = mx"
        by (rule sector_2 [OF q(1,2)]) (use H6 in \<open>simp add: algebra_simps\<close>)
      have 2: "hue2rgb mn mx H = mn + (mx - mn) * max ((G - B) / d) 0"
        by (rule sector_0 [OF q(1,2)]) (rule H6)
      have 3: "hue2rgb mn mx (H - 1 / 3) = mn + (mx - mn) * max (- ((G - B) / d)) 0"
        by (rule sector_m2 [OF q(1,2)]) (use H6 in \<open>simp add: algebra_simps\<close>)
      show ?thesis
        unfolding 1 2 3 dd q(4) [OF x] q(5) [OF x] q(3) using mxR mnB by simp
    next
      case True
      then have mnG: "mn = G" unfolding mn_def using le mxR by linarith
      have x: "G - B \<le> 0" using True by simp
      have "H = ((G - B) / d + 6) / 6"
        unfolding H_def if_P [OF mxR] if_P [OF True] ..
      then have H6: "6 * H = (G - B) / d + 6" by (simp only: six_sixth)
      have 1: "hue2rgb mn mx (H + 1 / 3) = mx"
        by (rule sector_8 [OF q(1,2)]) (use H6 in \<open>simp add: algebra_simps\<close>)
      have 2: "hue2rgb mn mx H = mn + (mx - mn) * max ((G - B) / d) 0"
        by (rule sector_6 [OF q(1,2)]) (rule H6)
      have 3: "hue2rgb mn mx (H - 1 / 3) = mn + (mx - mn) * max (- ((G - B) / d)) 0"
        by (rule sector_4 [OF q(1,2)]) (use H6 in \<open>simp add: algebra_simps\<close>)
      have e: "d * - ((G - B) / d) = - (G - B)" using q(3) by simp
      show ?thesis
        unfolding 1 2 3 dd q(6) [OF x] q(7) [OF x] e using mxR mnG by simp
    qed
  next
    case False
    note nR = this
    show ?thesis
    proof (cases "mx = G")
      case True
      note mxG = this
      have ab: "\<bar>B - R\<bar> \<le> d" using le unfolding d_def by linarith
      note q = quotient_facts [OF d ab]
      have "H = ((B - R) / d + 2) / 6"
        unfolding H_def if_not_P [OF nR] if_P [OF mxG] ..
      then have H6: "6 * H = (B - R) / d + 2" by (simp only: six_sixth)
      have 1: "hue2rgb mn mx (H + 1 / 3) = mn + (mx - mn) * max (- ((B - R) / d)) 0"
        by (rule sector_4 [OF q(1,2)]) (use H6 in \<open>simp add: algebra_simps\<close>)
      have 2: "hue2rgb mn mx H = mx"
        by (rule sector_2 [OF q(1,2)]) (rule H6)
      have 3: "hue2rgb mn mx (H - 1 / 3) = mn + (mx - mn) * max ((B - R) / d) 0"
        by (rule sector_0 [OF q(1,2)]) (use H6 in \<open>simp add: algebra_simps\<close>)
      have e: "d * - ((B - R) / d) = - (B - R)" using q(3) by simp
      show ?thesis
      proof (cases "R \<le> B")
        case True
        then have mnR: "mn = R" unfolding mn_def using le mxG by linarith
        have x: "0 \<le> B - R" using True by simp
        show ?thesis
          unfolding 1 2 3 dd q(4) [OF x] q(5) [OF x] q(3) using mxG mnR by simp
      next
        case False
        then have mnB: "mn = B" unfolding mn_def using le mxG by linarith
        have x: "B - R \<le> 0" using False by simp
        show ?thesis
          unfolding 1 2 3 dd q(6) [OF x] q(7) [OF x] e using mxG mnB by simp
      qed
    next
      case False
      then have mxB: "mx = B" using nR unfolding mx_def by linarith
      have ab: "\<bar>R - G\<bar> \<le> d" using le unfolding d_def by linarith
      note q = quotient_facts [OF d ab]
      have "H = ((R - G) / d + 4) / 6"
        unfolding H_def if_not_P [OF nR] if_not_P [OF False] ..
      then have H6: "6 * H = (R - G) / d + 4" by (simp only: six_sixth)
      have 1: "hue2rgb mn mx (H + 1 / 3) = mn + (mx - mn) * max ((R - G) / d) 0"
        by (rule sector_6 [OF q(1,2)]) (use H6 in \<open>simp add: algebra_simps\<close>)
      have 2: "hue2rgb mn mx H = mn + (mx - mn) * max (- ((R - G) / d)) 0"
        by (rule sector_4 [OF q(1,2)]) (rule H6)
      have 3: "hue2rgb mn mx (H - 1 / 3) = mx"
        by (rule sector_2 [OF q(1,2)]) (use H6 in \<open>simp add: algebra_simps\<close>)
      have e: "d * - ((R - G) / d) = - (R - G)" using q(3) by simp
      show ?thesis
      proof (cases "G \<le> R")
        case True
        then have mnG: "mn = G" unfolding mn_def using le mxB by linarith
        have x: "0 \<le> R - G" using True by simp
        show ?thesis
          unfolding 1 2 3 dd q(4) [OF x] q(5) [OF x] q(3) using mxB mnG by simp
      next
        case False
        then have mnR: "mn = R" unfolding mn_def using le mxB by linarith
        have x: "R - G \<le> 0" using False by simp
        show ?thesis
          unfolding 1 2 3 dd q(6) [OF x] q(7) [OF x] e using mxB mnR by simp
      qed
    qed
  qed
  then show "hue2rgb mn mx (H + 1 / 3) = R" and "hue2rgb mn mx H = G"
    and "hue2rgb mn mx (H - 1 / 3) = B"
    by simp_all
qed

lemma sat_core:
  fixes mx mn :: real
  assumes "0 \<le> mn" "mn < mx" "mx \<le> 1"
  defines "L \<equiv> (mx + mn) / 2"
  defines "S \<equiv> (if L > 0.5 then (mx - mn) / (2 - mx - mn) else (mx - mn) / (mx + mn))"
  defines "q \<equiv> (if L < 0.5 then L * (1 + S) else L + S - L * S)"
  shows "S \<noteq> 0" and "q = mx" and "2 * L - q = mn"
proof -
  have "S \<noteq> 0 \<and> q = mx"
  proof (cases "L > 0.5")
    case True
    then have dn: "0 < 2 - mx - mn" using assms(2,3) by simp
    have S: "S = (mx - mn) / (2 - mx - mn)" unfolding S_def using True by simp
    have nl: "\<not> L < 0.5" using True by simp
    have q: "q = L + S - L * S" unfolding q_def using nl by simp
    have "S * (2 - mx - mn) = mx - mn" unfolding S using dn by simp
    then have "L + S - L * S = mx" unfolding L_def by algebra
    moreover have "S \<noteq> 0" unfolding S using dn assms(2) by simp
    ultimately show ?thesis using q by simp
  next
    case False
    then have le: "mx + mn \<le> 1" unfolding L_def by simp
    have dn: "0 < mx + mn" using assms(1,2) by simp
    have S: "S = (mx - mn) / (mx + mn)" unfolding S_def using False by simp
    have e: "S * (mx + mn) = mx - mn" unfolding S using dn by simp
    have s0: "S \<noteq> 0" unfolding S using dn assms(2) by simp
    show ?thesis
    proof (cases "L < 0.5")
      case True
      then have q: "q = L * (1 + S)" unfolding q_def by simp
      have "L * (1 + S) = mx" unfolding L_def using e by algebra
      then show ?thesis using q s0 by simp
    next
      case nl: False
      then have q: "q = L + S - L * S" unfolding q_def by simp
      have one: "mx + mn = 1" using nl le unfolding L_def by simp
      have Sd: "S = mx - mn" using e unfolding one by simp
      have Lh: "L = 1 / 2" unfolding L_def one by simp
      have "L + S - L * S = mx" unfolding Sd Lh using one by algebra
      then show ?thesis using q s0 by simp
    qed
  qed
  then show "S \<noteq> 0" and qm: "q = mx" by simp_all
  have "2 * ((mx + mn) / 2) - mx = mn" by argo
  then show "2 * L - q = mn" unfolding L_def qm .
qed

lemma hslToRgb_scaled:
  assumes "S \<noteq> 0"
    and "(if L < 0.5 then L * (1 + S) else L + S - L * S) = q"
    and "2 * L - q = p"
  shows "hslToRgb \<lparr>h = H * 360, s = S * 100, l = L * 100\<rparr>
         = \<lparr>r = real_of_int (Math_round (hue2rgb p q (H + 1 / 3) * 255)),
            g = real_of_int (Math_round (hue2rgb p q H * 255)),
            b = real_of_int (Math_round (hue2rgb p q (H - 1 / 3) * 255))\<rparr>"
proof -
  have f: "h \<lparr>h = H * 360, s = S * 100, l = L * 100\<rparr> / 360 = H"
    "s \<lparr>h = H * 360, s = S * 100, l = L * 100\<rparr> / 100 = S"
    "l \<lparr>h = H * 360, s = S * 100, l = L * 100\<rparr> / 100 = L"
    by simp_all
  show ?thesis
    unfolding hslToRgb_def Let_def f if_not_P [OF assms(1)] assms(2) assms(3) ..
qed

lemma hslToRgb_achromatic:
  "hslToRgb \<lparr>h = 0 * 360, s = 0 * 100, l = L * 100\<rparr>
   = \<lparr>r = real_of_int (Math_round (L * 255)), g = real_of_int (Math_round (L * 255)),
      b = real_of_int (Math_round (L * 255))\<rparr>"
  by (simp add: hslToRgb_def)

lemma hsl_roundtrip:
  assumes "inGamut rgb"
  shows "hslToRgb (rgbToHsl rgb)
         = \<lparr>r = real_of_int (Math_round (r rgb / 255 * 255)),
            g = real_of_int (Math_round (g rgb / 255 * 255)),
            b = real_of_int (Math_round (b rgb / 255 * 255))\<rparr>"
proof -
  define R G B where RGB: "R = r rgb / 255" "G = g rgb / 255" "B = b rgb / 255"
  define mx mn where m: "mx = max (max R G) B" "mn = min (min R G) B"
  define L where "L = (mx + mn) / 2"
  define S where
    "S = (if L > 0.5 then (mx - mn) / (2 - mx - mn) else (mx - mn) / (mx + mn))"
  define H where
    "H = (if mx = R then ((G - B) / (mx - mn) + (if G < B then 6 else 0)) / 6
          else if mx = G then ((B - R) / (mx - mn) + 2) / 6
          else ((R - G) / (mx - mn) + 4) / 6)"
  have hsl: "rgbToHsl rgb
     = \<lparr>h = (if mx \<noteq> mn then H else 0) * 360, s = (if mx \<noteq> mn then S else 0) * 100,
        l = L * 100\<rparr>"
    unfolding rgbToHsl_def Let_def H_def S_def L_def m RGB ..
  have unit: "0 \<le> R" "R \<le> 1" "0 \<le> G" "G \<le> 1" "0 \<le> B" "B \<le> 1"
    using assms by (simp_all add: inGamut_def RGB)
  have le: "mn \<le> R" "R \<le> mx" "mn \<le> G" "G \<le> mx" "mn \<le> B" "B \<le> mx"
    unfolding m by simp_all
  have mm: "0 \<le> mn" "mx \<le> 1" using unit unfolding m by simp_all
  have "hslToRgb (rgbToHsl rgb)
        = \<lparr>r = real_of_int (Math_round (R * 255)), g = real_of_int (Math_round (G * 255)),
           b = real_of_int (Math_round (B * 255))\<rparr>"
  proof (cases "mx = mn")
    case True
    then have e: "R = mx" "G = mx" "B = mx" using le by simp_all
    have nn: "\<not> mx \<noteq> mn" using True by simp
    have "L = mx" unfolding L_def True by simp
    then show ?thesis
      unfolding hsl if_not_P [OF nn] hslToRgb_achromatic e by simp
  next
    case False
    then have lt: "mn < mx" using le by linarith
    note sc = sat_core [OF mm(1) lt mm(2), folded L_def, folded S_def]
    have hc: "hue2rgb mn mx (H + 1 / 3) = R" "hue2rgb mn mx H = G"
      "hue2rgb mn mx (H - 1 / 3) = B"
      using False unfolding H_def m by (rule hue_core)+
    show ?thesis
      unfolding hsl if_P [OF False] hslToRgb_scaled [OF sc(1) sc(2) sc(3) [unfolded sc(2)]] hc ..
  qed
  then show ?thesis unfolding RGB .
qed

lemma hsl_roundtrip_exact:
  assumes "validRGB rgb"
  shows "hslToRgb (rgbToHsl rgb) = rgb"
proof -
  have ch: "isChannel (r rgb)" "isChannel (g rgb)" "isChannel (b rgb)"
    using assms by (simp_all add: validRGB_def)
  have rd: "real_of_int (Math_round (c / 255 * 255)) = c" if "isChannel c" for c
  proof -
    from that have c: "c = real_of_int \<lfloor>c\<rfloor>" by (simp add: isChannel_def)
    have "c / 255 * 255 = c" by simp
    then show ?thesis using Math_round_int [of "\<lfloor>c\<rfloor>"] c by simp
  qed
  show ?thesis
    unfolding hsl_roundtrip [OF validRGB_inGamut [OF assms]] rd [OF ch(1)] rd [OF ch(2)]
      rd [OF ch(3)]
    by simp
qed

text \<open>
  Claim C7. For every RGB value with integer channels in \<open>[0, 255]\<close>, every channel of
  \<open>hslToRgb (rgbToHsl rgb)\<close> is within 1 of the same channel of \<open>rgb\<close>. (In exact
  arithmetic the two colours are equal, \<open>hsl_roundtrip_exact\<close>.)
\<close>

theorem hslToRgb_rgbToHsl:
  assumes "validRGB rgb"
  shows "\<bar>r (hslToRgb (rgbToHsl rgb)) - r rgb\<bar> \<le> 1
         \<and> \<bar>g (hslToRgb (rgbToHsl rgb)) - g rgb\<bar> \<le> 1
         \<and> \<bar>b (hslToRgb (rgbToHsl rgb)) - b rgb\<bar> \<le> 1"
  unfolding hsl_roundtrip_exact [OF assms] by simp

theorem hslToRgb_rgbToHsl_witness:
  "validRGB \<lparr>r = 18, g = 171, b = 255\<rparr>
   \<and> \<bar>r (hslToRgb (rgbToHsl \<lparr>r = 18, g = 171, b = 255\<rparr>)) - 18\<bar> \<le> 1
   \<and> \<bar>g (hslToRgb (rgbToHsl \<lparr>r = 18, g = 171, b = 255\<rparr>)) - 171\<bar> \<le> 1
   \<and> \<bar>b (hslToRgb (rgbToHsl \<lparr>r = 18, g = 171, b = 255\<rparr>)) - 255\<bar> \<le> 1
   \<and> validRGB \<lparr>r = 255, g = 0, b = 0\<rparr>
   \<and> rgbToHsl \<lparr>r = 255, g = 0, b = 0\<rparr> = \<lparr>h = 0, s = 100, l = 50\<rparr>
   \<and> \<bar>r (hslToRgb \<lparr>h = 0, s = 100, l = 50\<rparr>) - 255\<bar> \<le> 1
   \<and> \<bar>g (hslToRgb \<lparr>h = 0, s = 100, l = 50\<rparr>) - 0\<bar> \<le> 1
   \<and> \<bar>b (hslToRgb \<lparr>h = 0, s = 100, l = 50\<rparr>) - 0\<bar> \<le> 1"
proof -
  have v: "validRGB \<lparr>r = 255, g = 0, b = 0\<rparr>"
    by (simp add: validRGB_def isChannel_def)
  have w: "validRGB \<lparr>r = 18, g = 171, b = 255\<rparr>"
    by (simp add: validRGB_def isChannel_def)
  show ?thesis
    using v w hslToRgb_rgbToHsl [OF v] hslToRgb_rgbToHsl [OF w] by (simp add: rgbToHsl_red)
qed

end
